theory Spec2Isabelle
  imports Complex_Main "HOL-Library.AList"
begin

section \<open>Python values, dictionaries and exceptions\<close>

text \<open>
  The module \<^verbatim>\<open>buildarr_sonarr/config/quality.py\<close> handles three kinds of data: JSON values
  (read from the server and from the TRaSH-Guides metadata files), Python dictionaries, and
  pydantic models. JSON values are the datatype \<open>json\<close>. The value of a Python \<^verbatim>\<open>float\<close> is a
  \<open>real\<close>: the module compares numbers and takes a minimum, which is exact, and computes one
  difference, in \<open>validate_max\<close>, which is rounded as binary64 arithmetic rounds it
  (\<open>float_sub\<close> below). JSON integers and floats are both \<open>JNum\<close>, as Python compares them by
  value.
\<close>

datatype json =
    JNull
  | JBool bool
  | JNum real
  | JStr string
  | JArr "json list"
  | JObj "(string \<times> json) list"

text \<open>
  A Python \<^verbatim>\<open>dict\<close> keeps its keys in insertion order and holds each key once. It is an
  association list; \<open>d[k] = v\<close> is \<open>AList.update\<close> (replace the value in place when the key is
  there, append otherwise), \<open>d[k]\<close> is \<open>getitem\<close>, which raises \<^verbatim>\<open>KeyError\<close> on a missing
  key, and \<open>k in d\<close> is \<open>contains\<close>.
\<close>

type_synonym ('k, 'v) dict = "('k \<times> 'v) list"

datatype error_type = string_type | float_type | greater_than_equal | less_than_equal | value_error

type_synonym line_error = "string \<times> error_type"

text \<open>
  The exceptions the module can raise. \<open>ValueError quality_max quality_min\<close> is the one raised
  by \<open>validate_max\<close> (its message quotes the two numbers); pydantic turns it into the line
  error \<open>(''max'', value_error)\<close> of a \<open>ValidationError\<close>, which lists the fields that failed
  with the kind of each failure.
\<close>

datatype error =
    KeyError json
  | TypeError
  | AttributeError string
  | ValueError real real
  | ValidationError "line_error list"
  | ConfigTrashIDNotFoundError string

definition getitem :: "('k, 'v) dict \<Rightarrow> 'k \<Rightarrow> ('k \<Rightarrow> json) \<Rightarrow> error + 'v" where
  "getitem d k repr = (case map_of d k of None \<Rightarrow> Inl (KeyError (repr k)) | Some v \<Rightarrow> Inr v)"

definition contains :: "('k, 'v) dict \<Rightarrow> 'k \<Rightarrow> bool" where
  "contains d k = (map_of d k \<noteq> None)"

text \<open>\<^verbatim>\<open>{**a, **b}\<close>: the entries of \<open>a\<close>, overwritten and extended by those of \<open>b\<close> in order.\<close>

definition dict_merge :: "('k, 'v) dict \<Rightarrow> ('k, 'v) dict \<Rightarrow> ('k, 'v) dict" where
  "dict_merge a b = fold (\<lambda>(k, v) acc. AList.update k v acc) b a"

text \<open>Python's truth value of an object, and \<^verbatim>\<open>v or d\<close>.\<close>

fun truthy :: "json \<Rightarrow> bool" where
  "truthy JNull = False"
| "truthy (JBool b) = b"
| "truthy (JNum x) = (x \<noteq> 0)"
| "truthy (JStr s) = (s \<noteq> [])"
| "truthy (JArr xs) = (xs \<noteq> [])"
| "truthy (JObj kvs) = (kvs \<noteq> [])"

definition py_or :: "json \<Rightarrow> json \<Rightarrow> json" where
  "py_or v d = (if truthy v then v else d)"

text \<open>Lists and dictionaries are unhashable: using one as a dictionary key raises \<^verbatim>\<open>TypeError\<close>.\<close>

fun hashable :: "json \<Rightarrow> bool" where
  "hashable (JArr xs) = False"
| "hashable (JObj kvs) = False"
| "hashable v = True"

section \<open>Quality definitions\<close>

definition QUALITYDEFINITION_MIN_MAX :: real where
  "QUALITYDEFINITION_MIN_MAX = 1998"

definition QUALITYDEFINITION_PREFERRED_MAX :: real where
  "QUALITYDEFINITION_PREFERRED_MAX = 1999"

definition QUALITYDEFINITION_MAX :: real where
  "QUALITYDEFINITION_MAX = 2000"

text \<open>
  The class \<^verbatim>\<open>QualityDefinition\<close>. Its fields \<^verbatim>\<open>min\<close> and \<^verbatim>\<open>max\<close> are \<open>min_f\<close> and \<open>max_f\<close>
  here, the plain names being HOL's minimum and maximum.
\<close>

record QualityDefinition =
  title :: "string option"
  min_f :: real
  preferred :: real
  max_f :: "real option"

text \<open>
  The field annotations. \<^verbatim>\<open>Annotated[float, Field(ge=a, le=b)]\<close> accepts a number within the
  bounds given; \<^verbatim>\<open>Optional[...]\<close> accepts \<^verbatim>\<open>None\<close> as well. The inputs considered are JSON
  values, a number being accepted as a float and a string as a \<^verbatim>\<open>str\<close>; what pydantic would
  coerce (a numeric string, say) is reported as a type error here.
\<close>

definition validate_float :: "string \<Rightarrow> real option \<Rightarrow> real option \<Rightarrow> json \<Rightarrow> line_error + real" where
  "validate_float field ge le v =
     (case v of
        JNum x \<Rightarrow>
          if (case le of Some b \<Rightarrow> \<not> x \<le> b | None \<Rightarrow> False) then Inl (field, less_than_equal)
          else if (case ge of Some b \<Rightarrow> \<not> x \<ge> b | None \<Rightarrow> False) then Inl (field, greater_than_equal)
          else Inr x
      | _ \<Rightarrow> Inl (field, float_type))"

definition validate_optional_float ::
  "string \<Rightarrow> real option \<Rightarrow> real option \<Rightarrow> json \<Rightarrow> line_error + real option" where
  "validate_optional_float field ge le v =
     (case v of
        JNull \<Rightarrow> Inr None
      | _ \<Rightarrow> (case validate_float field ge le v of Inl e \<Rightarrow> Inl e | Inr x \<Rightarrow> Inr (Some x)))"

definition validate_optional_str :: "string \<Rightarrow> json \<Rightarrow> line_error + string option" where
  "validate_optional_str field v =
     (case v of JNull \<Rightarrow> Inr None | JStr s \<Rightarrow> Inr (Some s) | _ \<Rightarrow> Inl (field, string_type))"

text \<open>
  The one arithmetic operation of the module is the subtraction in \<open>validate_max\<close>. Python's
  \<^verbatim>\<open>float\<close> is IEEE 754 binary64: the difference of two floats is the exact difference rounded
  to the nearest number with a significand of 53 bits, a tie going to the even significand.
  \<open>binary64_exponent y\<close> is the exponent of the binade of \<open>y\<close> (not below -1022, where the
  subnormal numbers begin), found by counting up from -1022; \<open>binary64_round\<close> rounds to a
  multiple of the unit in the last place of that binade; \<open>float_sub\<close> is the subtraction.
  Overflow to infinity (beyond \<open>2 ^ 1024\<close>) is not modelled: the numbers subtracted here are
  bounded by the checks of their fields.
\<close>

definition round_half_even :: "real \<Rightarrow> int" where
  "round_half_even y =
     (let f = \<lfloor>y\<rfloor>; d = y - of_int f
      in if d < 1 / 2 then f else if 1 / 2 < d then f + 1 else if even f then f else f + 1)"

fun exponent_from :: "nat \<Rightarrow> int \<Rightarrow> real \<Rightarrow> int" where
  "exponent_from 0 e x = e"
| "exponent_from (Suc n) e x = (if 2 powi (e + 1) \<le> x then exponent_from n (e + 1) x else e)"

definition binary64_exponent :: "real \<Rightarrow> int" where
  "binary64_exponent x = exponent_from 2046 (- 1022) x"

definition binary64_round :: "real \<Rightarrow> real" where
  "binary64_round x =
     (let y = \<bar>x\<bar>; ulp = 2 powi (binary64_exponent y - 52);
          r = of_int (round_half_even (y / ulp)) * ulp
      in if x < 0 then - r else r)"

definition float_sub :: "real \<Rightarrow> real \<Rightarrow> real" where
  "float_sub a b = binary64_round (a - b)"

text \<open>
  \<^verbatim>\<open>validate_max(cls, value, info)\<close>, the validator of the field \<^verbatim>\<open>max\<close>. \<open>data\<close> is
  \<^verbatim>\<open>info.data\<close>, the dictionary of the fields validated before \<^verbatim>\<open>max\<close>; a field that failed
  its own validation is not in it, and \<^verbatim>\<open>info.data["min"]\<close> then raises \<^verbatim>\<open>KeyError\<close>.
  The test \<^verbatim>\<open>(quality_max - quality_min) < 1\<close> is on the float the subtraction returns.
\<close>

definition validate_max :: "real option \<Rightarrow> (string, json) dict \<Rightarrow> error + real option" where
  "validate_max value data =
     (case getitem data ''min'' JStr of
        Inl e \<Rightarrow> Inl e
      | Inr (JNum quality_min) \<Rightarrow>
          (let (quality_max, value') =
                 (case value of
                    Some v \<Rightarrow>
                      (let quality_max = min v QUALITYDEFINITION_MAX
                       in (quality_max, if quality_max \<ge> QUALITYDEFINITION_MAX then None else value))
                  | None \<Rightarrow> (QUALITYDEFINITION_MAX, value))
           in if float_sub quality_max quality_min < 1 then Inl (ValueError quality_max quality_min)
              else Inr value')
      | Inr _ \<Rightarrow> Inl TypeError)"

text \<open>
  Construction of a \<^verbatim>\<open>QualityDefinition(title=..., min=..., preferred=..., max=...)\<close>, as
  pydantic runs it: the fields are validated in the order of their declaration (\<^verbatim>\<open>title\<close>,
  \<^verbatim>\<open>min\<close>, \<^verbatim>\<open>preferred\<close>, \<^verbatim>\<open>max\<close>), each valid value is added to \<^verbatim>\<open>info.data\<close>, each failure
  is collected, and a \<^verbatim>\<open>ValidationError\<close> listing the failures is raised at the end if there is
  one. The class declares \<^verbatim>\<open>preferred\<close> twice; the second annotation, \<^verbatim>\<open>Field(ge=0)\<close>, replaces
  the first, so \<open>QUALITYDEFINITION_PREFERRED_MAX\<close> bounds nothing. \<open>validate_max\<close> runs after the
  field's own check has passed; its \<^verbatim>\<open>ValueError\<close> becomes a failure of the field \<^verbatim>\<open>max\<close>, and
  any other exception it raises leaves the constructor as it is.
\<close>

definition errors_of :: "line_error + 'a \<Rightarrow> line_error list" where
  "errors_of r = (case r of Inl e \<Rightarrow> [e] | Inr _ \<Rightarrow> [])"

definition add_data :: "string \<Rightarrow> line_error + 'a \<Rightarrow> ('a \<Rightarrow> json) \<Rightarrow> (string, json) dict \<Rightarrow> (string, json) dict" where
  "add_data field r to_json data = (case r of Inl _ \<Rightarrow> data | Inr v \<Rightarrow> AList.update field (to_json v) data)"

definition json_of_str_option :: "string option \<Rightarrow> json" where
  "json_of_str_option v = (case v of None \<Rightarrow> JNull | Some s \<Rightarrow> JStr s)"

definition json_of_float_option :: "real option \<Rightarrow> json" where
  "json_of_float_option v = (case v of None \<Rightarrow> JNull | Some x \<Rightarrow> JNum x)"

definition QualityDefinition_init :: "json \<Rightarrow> json \<Rightarrow> json \<Rightarrow> json \<Rightarrow> error + QualityDefinition" where
  "QualityDefinition_init title_arg min_arg preferred_arg max_arg =
     (let r_title = validate_optional_str ''title'' title_arg;
          r_min = validate_float ''min'' (Some 0) (Some QUALITYDEFINITION_MIN_MAX) min_arg;
          r_preferred = validate_float ''preferred'' (Some 0) None preferred_arg;
          data = add_data ''preferred'' r_preferred JNum
                   (add_data ''min'' r_min JNum
                      (add_data ''title'' r_title json_of_str_option []));
          errors = errors_of r_title @ errors_of r_min @ errors_of r_preferred
      in case validate_optional_float ''max'' (Some 1) (Some QUALITYDEFINITION_MAX) max_arg of
           Inl e \<Rightarrow> Inl (ValidationError (errors @ [e]))
         | Inr value \<Rightarrow>
             (case validate_max value data of
                Inl (ValueError a b) \<Rightarrow> Inl (ValidationError (errors @ [(''max'', value_error)]))
              | Inl e \<Rightarrow> Inl e
              | Inr value' \<Rightarrow>
                  (case (r_title, r_min, r_preferred) of
                     (Inr t, Inr mn, Inr p) \<Rightarrow>
                       Inr \<lparr>title = t, min_f = mn, preferred = p, max_f = value'\<rparr>
                   | _ \<Rightarrow> Inl (ValidationError errors))))"

section \<open>The settings object and the TRaSH-Guides metadata\<close>

text \<open>
  The class \<^verbatim>\<open>SonarrQualitySettingsConfig\<close>. A \<^verbatim>\<open>TrashID\<close> is a string; the dictionary of
  definitions is keyed by quality name.
\<close>

record SonarrQualitySettingsConfig =
  trash_id :: "string option"
  definitions :: "(string, QualityDefinition) dict"

text \<open>
  A quality-size file of the metadata directory, as \<^verbatim>\<open>json.load\<close> returns it, in the shape
  TRaSH-Guides publishes: an object with a string \<^verbatim>\<open>"trash_id"\<close> and a list \<^verbatim>\<open>"qualities"\<close> of
  objects with a string \<^verbatim>\<open>"quality"\<close> and the values \<^verbatim>\<open>"min"\<close>, \<^verbatim>\<open>"preferred"\<close> and
  \<^verbatim>\<open>"max"\<close>, which are handed to pydantic as they are. The directory is the list of its files
  in the order \<^verbatim>\<open>iterdir()\<close> yields them.
\<close>

record quality_size_entry =
  quality :: string
  min_json :: json
  preferred_json :: json
  max_json :: json

record quality_size_file =
  trash_id_json :: string
  qualities :: "quality_size_entry list"

text \<open>\<^verbatim>\<open>str.lower()\<close>, on ASCII letters (a trash ID is a string of hexadecimal digits).\<close>

definition lower_char :: "char \<Rightarrow> char" where
  "lower_char c =
     (let n = (of_char c :: nat) in if 65 \<le> n \<and> n \<le> 90 then char_of (n + 32) else c)"

definition lower :: "string \<Rightarrow> string" where
  "lower s = map lower_char s"

text \<open>
  \<^verbatim>\<open>_render\<close>. The method changes \<^verbatim>\<open>self.definitions\<close> in place, so the model returns the
  dictionary as it is when the method ends, also when it ends by an exception: \<open>Inr ()\<close> is a
  normal return, \<open>Inl e\<close> the exception \<open>e\<close>. The inner loop runs over the qualities of the
  matching file, the outer one over the files.
\<close>

fun render_qualities ::
  "quality_size_entry list \<Rightarrow> (string, QualityDefinition) dict
     \<Rightarrow> (error + unit) \<times> (string, QualityDefinition) dict" where
  "render_qualities [] defs = (Inr (), defs)"
| "render_qualities (definition_json # rest) defs =
     (let definition_name = quality definition_json
      in if \<not> contains defs definition_name then
           (case QualityDefinition_init JNull (min_json definition_json)
                   (preferred_json definition_json) (max_json definition_json) of
              Inl e \<Rightarrow> (Inl e, defs)
            | Inr q \<Rightarrow> render_qualities rest (AList.update definition_name q defs))
         else render_qualities rest defs)"

fun render_files ::
  "quality_size_file list \<Rightarrow> string \<Rightarrow> (string, QualityDefinition) dict
     \<Rightarrow> (error + unit) \<times> (string, QualityDefinition) dict" where
  "render_files [] tid defs = (Inl (ConfigTrashIDNotFoundError tid), defs)"
| "render_files (quality_json # rest) tid defs =
     (if lower (trash_id_json quality_json) = tid
      then render_qualities (qualities quality_json) defs
      else render_files rest tid defs)"

definition render ::
  "quality_size_file list \<Rightarrow> SonarrQualitySettingsConfig
     \<Rightarrow> (error + unit) \<times> SonarrQualitySettingsConfig" where
  "render files self =
     (case trash_id self of
        None \<Rightarrow> (Inr (), self)
      | Some tid \<Rightarrow>
          if tid = [] then (Inr (), self)
          else (let (r, defs) = render_files files tid (definitions self)
                in (r, self\<lparr>definitions := defs\<rparr>)))"

section \<open>Reading the remote state\<close>

text \<open>
  \<^verbatim>\<open>api_get(secrets, "/api/v3/qualitydefinition")\<close> returns the list of the server's records,
  each a JSON object. The server is that list; the secrets are only passed on to the HTTP
  layer and are left out.
\<close>

type_synonym definition_json = "(string, json) dict"

type_synonym server = "definition_json list"

definition and_then :: "error + 'a \<Rightarrow> ('a \<Rightarrow> error + 'b) \<Rightarrow> error + 'b" where
  "and_then r f = (case r of Inl e \<Rightarrow> Inl e | Inr v \<Rightarrow> f v)"

text \<open>\<^verbatim>\<open>definition_json["quality"]["name"]\<close>; subscripting anything but an object is a \<^verbatim>\<open>TypeError\<close>.\<close>

definition quality_name :: "definition_json \<Rightarrow> error + json" where
  "quality_name definition_json =
     and_then (getitem definition_json ''quality'' JStr)
       (\<lambda>q. case q of JObj kvs \<Rightarrow> getitem kvs ''name'' JStr | _ \<Rightarrow> Inl TypeError)"

text \<open>
  \<^verbatim>\<open>from_remote\<close>. \<open>from_remote_item\<close> is one step of the dictionary comprehension: the key, then
  the \<^verbatim>\<open>QualityDefinition\<close> built from the record. The comprehension stores each pair under its
  key, a later record replacing an earlier one of the same name. The class is then built from
  the dictionary, and pydantic checks that its keys are strings.
\<close>

definition from_remote_item :: "definition_json \<Rightarrow> error + json \<times> QualityDefinition" where
  "from_remote_item definition_json =
     and_then (quality_name definition_json) (\<lambda>name.
     and_then (getitem definition_json ''title'' JStr) (\<lambda>title_json.
     and_then (getitem definition_json ''minSize'' JStr) (\<lambda>min_size.
     and_then (getitem definition_json ''preferredSize'' JStr) (\<lambda>preferred_size.
     and_then (QualityDefinition_init
                 (if title_json \<noteq> name then title_json else JNull)
                 min_size
                 preferred_size
                 (case map_of definition_json ''maxSize'' of None \<Rightarrow> JNull | Some v \<Rightarrow> v)) (\<lambda>q.
     if hashable name then Inr (name, q) else Inl TypeError)))))"

fun from_remote_definitions ::
  "definition_json list \<Rightarrow> (json, QualityDefinition) dict \<Rightarrow> error + (json, QualityDefinition) dict" where
  "from_remote_definitions [] acc = Inr acc"
| "from_remote_definitions (definition_json # rest) acc =
     and_then (from_remote_item definition_json)
       (\<lambda>(name, q). from_remote_definitions rest (AList.update name q acc))"

fun validate_definitions ::
  "(json, QualityDefinition) dict \<Rightarrow> line_error list \<times> (string, QualityDefinition) dict" where
  "validate_definitions [] = ([], [])"
| "validate_definitions ((JStr s, q) # rest) =
     (let (errors, defs) = validate_definitions rest in (errors, (s, q) # defs))"
| "validate_definitions ((k, q) # rest) =
     (let (errors, defs) = validate_definitions rest in ((''definitions'', string_type) # errors, defs))"

definition from_remote :: "server \<Rightarrow> error + SonarrQualitySettingsConfig" where
  "from_remote server =
     and_then (from_remote_definitions server [])
       (\<lambda>d. case validate_definitions d of
               ([], defs) \<Rightarrow> Inr \<lparr>trash_id = None, definitions = defs\<rparr>
             | (errors, _) \<Rightarrow> Inl (ValidationError errors))"

section \<open>Comparing a local definition with the remote one\<close>

text \<open>
  Modelled from the spec: \<^verbatim>\<open>get_update_remote_attrs\<close>, a method of Buildarr's configuration
  base class, which is not in the source. It is given the remote object and a list of entries
  (attribute name, name of the attribute in the remote record, optional encoder). Following
  section 4.4 of the specification, it compares each listed field of the local object with
  the same field of the remote one, a field with an encoder being compared after encoding (so
  the title comparator puts the quality name in the place of an unset or blank title before
  comparing); it returns whether any field differs, and the dictionary of the differing
  fields only, each under its remote name with the encoded local value.
\<close>

type_synonym remote_map_entry = "string \<times> string \<times> (json \<Rightarrow> json) option"

definition getattr :: "QualityDefinition \<Rightarrow> string \<Rightarrow> error + json" where
  "getattr obj name =
     (if name = ''title'' then Inr (json_of_str_option (title obj))
      else if name = ''min'' then Inr (JNum (min_f obj))
      else if name = ''preferred'' then Inr (JNum (preferred obj))
      else if name = ''max'' then Inr (json_of_float_option (max_f obj))
      else Inl (AttributeError name))"

fun get_update_remote_attrs_loop ::
  "QualityDefinition \<Rightarrow> QualityDefinition \<Rightarrow> remote_map_entry list
     \<Rightarrow> bool \<times> (string, json) dict \<Rightarrow> error + bool \<times> (string, json) dict" where
  "get_update_remote_attrs_loop self remote [] acc = Inr acc"
| "get_update_remote_attrs_loop self remote ((attr_name, remote_attr_name, encoder) # rest)
       (updated, remote_attrs) =
     and_then (getattr self attr_name) (\<lambda>local_value.
     and_then (getattr remote attr_name) (\<lambda>remote_value.
       (let encode = (case encoder of None \<Rightarrow> (\<lambda>v. v) | Some f \<Rightarrow> f)
        in if encode local_value \<noteq> encode remote_value
           then get_update_remote_attrs_loop self remote rest
                  (True, AList.update remote_attr_name (encode local_value) remote_attrs)
           else get_update_remote_attrs_loop self remote rest (updated, remote_attrs))))"

definition get_update_remote_attrs ::
  "QualityDefinition \<Rightarrow> QualityDefinition \<Rightarrow> remote_map_entry list
     \<Rightarrow> error + bool \<times> (string, json) dict" where
  "get_update_remote_attrs self remote remote_map =
     get_update_remote_attrs_loop self remote remote_map (False, [])"

text \<open>
  The specification's words for the same comparison, to set against the method: a local tier
  differs from the remote one when the titles differ once the quality name stands for an unset
  or blank title, or when \<^verbatim>\<open>min\<close>, \<^verbatim>\<open>preferred\<close> or \<^verbatim>\<open>max\<close> differ.
\<close>

definition effective_title :: "string \<Rightarrow> QualityDefinition \<Rightarrow> string" where
  "effective_title definition_name q =
     (case title q of None \<Rightarrow> definition_name | Some s \<Rightarrow> if s = [] then definition_name else s)"

definition tier_differs :: "string \<Rightarrow> QualityDefinition \<Rightarrow> QualityDefinition \<Rightarrow> bool" where
  "tier_differs definition_name local remote =
     (effective_title definition_name local \<noteq> effective_title definition_name remote
      \<or> min_f local \<noteq> min_f remote
      \<or> preferred local \<noteq> preferred remote
      \<or> max_f local \<noteq> max_f remote)"

text \<open>
  And the specification's words for the attributes to overwrite: the differing fields only,
  each under its remote name with the local value (the effective title for the title).
\<close>

definition changed_attrs :: "string \<Rightarrow> QualityDefinition \<Rightarrow> QualityDefinition \<Rightarrow> (string, json) dict" where
  "changed_attrs definition_name local remote =
     (if effective_title definition_name local \<noteq> effective_title definition_name remote
      then [(''title'', JStr (effective_title definition_name local))] else [])
     @ (if min_f local \<noteq> min_f remote then [(''minSize'', JNum (min_f local))] else [])
     @ (if preferred local \<noteq> preferred remote
        then [(''preferredSize'', JNum (preferred local))] else [])
     @ (if max_f local \<noteq> max_f remote
        then [(''maxSize'', json_of_float_option (max_f local))] else [])"

section \<open>Updating the remote state\<close>

text \<open>
  \<^verbatim>\<open>update_remote\<close>. The two dictionary comprehensions at its head are \<open>index_by_id\<close>
  (\<^verbatim>\<open>remote_definitions_json\<close>, from the records \<^verbatim>\<open>api_get\<close> returns) and \<open>index_ids\<close>
  (\<^verbatim>\<open>definition_ids\<close>, from the items of the former).
\<close>

fun index_by_id ::
  "definition_json list \<Rightarrow> (json, definition_json) dict \<Rightarrow> error + (json, definition_json) dict" where
  "index_by_id [] acc = Inr acc"
| "index_by_id (definition_json # rest) acc =
     and_then (getitem definition_json ''id'' JStr) (\<lambda>definition_id.
       if hashable definition_id
       then index_by_id rest (AList.update definition_id definition_json acc)
       else Inl TypeError)"

fun index_ids ::
  "(json \<times> definition_json) list \<Rightarrow> (json, json) dict \<Rightarrow> error + (json, json) dict" where
  "index_ids [] acc = Inr acc"
| "index_ids ((definition_id, definition_json) # rest) acc =
     and_then (quality_name definition_json) (\<lambda>name.
       if hashable name
       then index_ids rest (AList.update name definition_id acc)
       else Inl TypeError)"

text \<open>The list \<^verbatim>\<open>remote_map\<close> passed for the definition of a given name.\<close>

definition remote_map :: "string \<Rightarrow> remote_map_entry list" where
  "remote_map definition_name =
     [(''title'', ''title'', Some (\<lambda>v. py_or v (JStr definition_name))),
      (''min'', ''minSize'', None),
      (''preferred'', ''preferredSize'', None),
      (''max'', ''maxSize'', None)]"

text \<open>
  A call \<^verbatim>\<open>api_put(secrets, f"/api/v3/qualitydefinition/{definition_id}", body)\<close> is recorded as
  the pair of the ID and the body. The loop over \<^verbatim>\<open>self.definitions.items()\<close> carries the flag
  \<^verbatim>\<open>changed\<close> and the calls made so far; an exception ends it and leaves the calls already
  made. The argument \<^verbatim>\<open>tree\<close> only names the definition in log messages and the body of the
  method does not use \<^verbatim>\<open>check_unmanaged\<close>; both are left out, as is a failure of the HTTP
  request itself.
\<close>

type_synonym api_put_call = "json \<times> definition_json"

fun update_remote_loop ::
  "(string \<times> QualityDefinition) list \<Rightarrow> SonarrQualitySettingsConfig
     \<Rightarrow> (json, definition_json) dict \<Rightarrow> (json, json) dict \<Rightarrow> bool \<Rightarrow> api_put_call list
     \<Rightarrow> (error + bool) \<times> api_put_call list" where
  "update_remote_loop [] remote remote_definitions_json definition_ids changed puts =
     (Inr changed, puts)"
| "update_remote_loop ((definition_name, local_definition) # rest) remote
       remote_definitions_json definition_ids changed puts =
     (case getitem (definitions remote) definition_name JStr of
        Inl e \<Rightarrow> (Inl e, puts)
      | Inr remote_definition \<Rightarrow>
          (case get_update_remote_attrs local_definition remote_definition
                  (remote_map definition_name) of
             Inl e \<Rightarrow> (Inl e, puts)
           | Inr (updated, remote_attrs) \<Rightarrow>
               if updated then
                 (case getitem definition_ids (JStr definition_name) (\<lambda>k. k) of
                    Inl e \<Rightarrow> (Inl e, puts)
                  | Inr definition_id \<Rightarrow>
                      (case getitem remote_definitions_json definition_id (\<lambda>k. k) of
                         Inl e \<Rightarrow> (Inl e, puts)
                       | Inr record_json \<Rightarrow>
                           update_remote_loop rest remote remote_definitions_json definition_ids
                             True
                             (puts @ [(definition_id, dict_merge record_json remote_attrs)])))
               else update_remote_loop rest remote remote_definitions_json definition_ids
                      changed puts))"

definition update_remote ::
  "server \<Rightarrow> SonarrQualitySettingsConfig \<Rightarrow> SonarrQualitySettingsConfig
     \<Rightarrow> (error + bool) \<times> api_put_call list" where
  "update_remote server self remote =
     (case index_by_id server [] of
        Inl e \<Rightarrow> (Inl e, [])
      | Inr remote_definitions_json \<Rightarrow>
          (case index_ids remote_definitions_json [] of
             Inl e \<Rightarrow> (Inl e, [])
           | Inr definition_ids \<Rightarrow>
               update_remote_loop (definitions self) remote remote_definitions_json
                 definition_ids False []))"

text \<open>
  Modelled from the spec: the server's side of \<^verbatim>\<open>api_put\<close> (the HTTP layer of the plugin is not
  in the source). Following section 6 of the specification, a PUT by record ID with a full
  record body puts the body in the place of the record of that ID; the other records stay.
\<close>

definition api_put :: "api_put_call \<Rightarrow> server \<Rightarrow> server" where
  "api_put call server =
     map (\<lambda>record_json. if map_of record_json ''id'' = Some (fst call) then snd call else record_json)
       server"

text \<open>
  The specification's words for the reconciler and the writer (sections 4.4 and 4.5), to set
  against \<open>update_remote\<close>. A local entry is marked changed when its tier differs from the
  remote tier of the same name. The write for an entry looks its ID up in the index of names,
  takes the raw record of that ID and sends, to that ID, the record with the changed
  attributes merged over it.
\<close>

definition marked_changed :: "SonarrQualitySettingsConfig \<Rightarrow> string \<times> QualityDefinition \<Rightarrow> bool" where
  "marked_changed remote item =
     (case map_of (definitions remote) (fst item) of
        Some remote_definition \<Rightarrow> tier_differs (fst item) (snd item) remote_definition
      | None \<Rightarrow> False)"

definition writer_call ::
  "SonarrQualitySettingsConfig \<Rightarrow> (json, definition_json) dict \<Rightarrow> (json, json) dict
     \<Rightarrow> api_put_call \<Rightarrow> string \<times> QualityDefinition \<Rightarrow> bool" where
  "writer_call remote remote_definitions_json definition_ids call item =
     (case (map_of (definitions remote) (fst item), map_of definition_ids (JStr (fst item))) of
        (Some remote_definition, Some definition_id) \<Rightarrow>
          (case map_of remote_definitions_json definition_id of
             Some record_json \<Rightarrow>
               call = (definition_id,
                       dict_merge record_json
                         (changed_attrs (fst item) (snd item) remote_definition))
           | None \<Rightarrow> False)
      | _ \<Rightarrow> False)"

text \<open>
  An object that pydantic has built and returned: constructing from its own fields gives it
  back. The objects of \<^verbatim>\<open>self.definitions\<close> are of this kind.
\<close>

definition constructed :: "QualityDefinition \<Rightarrow> bool" where
  "constructed q =
     (QualityDefinition_init (json_of_str_option (title q)) (JNum (min_f q)) (JNum (preferred q))
        (json_of_float_option (max_f q)) = Inr q)"

section \<open>An example\<close>

text \<open>
  The end-to-end example of the specification (testable property 7), with two more records:
  the server holds \<open>X\<close>, whose \<^verbatim>\<open>minSize\<close> differs from the local \<^verbatim>\<open>min\<close>, \<open>Y\<close>, which is in
  sync (its \<^verbatim>\<open>maxSize\<close> of 2000 reads back as unset), and \<open>Z\<close>, which the local configuration
  does not mention. \<^verbatim>\<open>weight\<close> and the ID inside \<^verbatim>\<open>quality\<close> are fields the plugin does not
  model.
\<close>

definition example_record_X :: definition_json where
  "example_record_X =
     [(''id'', JNum 1), (''quality'', JObj [(''id'', JNum 4), (''name'', JStr ''X'')]),
      (''title'', JStr ''X''), (''weight'', JNum 3), (''minSize'', JNum 1),
      (''preferredSize'', JNum 5), (''maxSize'', JNum 100)]"

definition example_record_Y :: definition_json where
  "example_record_Y =
     [(''id'', JNum 2), (''quality'', JObj [(''id'', JNum 7), (''name'', JStr ''Y'')]),
      (''title'', JStr ''Why''), (''weight'', JNum 4), (''minSize'', JNum 0),
      (''preferredSize'', JNum 95), (''maxSize'', JNum 2000)]"

definition example_record_Z :: definition_json where
  "example_record_Z =
     [(''id'', JNum 3), (''quality'', JObj [(''id'', JNum 9), (''name'', JStr ''Z'')]),
      (''title'', JStr ''Z''), (''weight'', JNum 5), (''minSize'', JNum 10),
      (''preferredSize'', JNum 20)]"

definition example_server :: server where
  "example_server = [example_record_X, example_record_Y, example_record_Z]"

definition example_local :: SonarrQualitySettingsConfig where
  "example_local =
     \<lparr>trash_id = None, definitions =
        [(''X'', \<lparr>title = None, min_f = 2, preferred = 5, max_f = Some 100\<rparr>),
         (''Y'', \<lparr>title = Some ''Why'', min_f = 0, preferred = 95, max_f = None\<rparr>)]\<rparr>"

definition example_remote :: SonarrQualitySettingsConfig where
  "example_remote =
     \<lparr>trash_id = None, definitions =
        [(''X'', \<lparr>title = None, min_f = 1, preferred = 5, max_f = Some 100\<rparr>),
         (''Y'', \<lparr>title = Some ''Why'', min_f = 0, preferred = 95, max_f = None\<rparr>),
         (''Z'', \<lparr>title = None, min_f = 10, preferred = 20, max_f = None\<rparr>)]\<rparr>"

text \<open>The same local configuration with a quality name the server does not have.\<close>

definition example_local_unknown :: SonarrQualitySettingsConfig where
  "example_local_unknown =
     \<lparr>trash_id = None, definitions =
        [(''X'', \<lparr>title = None, min_f = 2, preferred = 5, max_f = Some 100\<rparr>),
         (''W'', \<lparr>title = None, min_f = 3, preferred = 4, max_f = None\<rparr>)]\<rparr>"

section \<open>Properties of the validation\<close>

subsection \<open>The float subtraction\<close>

text \<open>
  The binade found by \<open>binary64_exponent\<close> holds its argument; rounding is monotone enough
  around 1 for the comparison of \<open>validate_max\<close> to be decided from the exact difference: the
  computed difference is below 1 exactly when the exact one is below the midpoint of 1 and its
  predecessor among the floats, which rounds to 1 (a tie, 1 having the even significand).
\<close>

lemma exponent_from_ge: "e \<le> exponent_from n e x"
  by (induction n e x rule: exponent_from.induct) auto

lemma exponent_from_le: "exponent_from n e x \<le> e + int n"
  by (induction n e x rule: exponent_from.induct) auto

lemma exponent_from_below: "2 powi e \<le> x \<Longrightarrow> 2 powi (exponent_from n e x) \<le> x"
  by (induction n e x rule: exponent_from.induct) auto

lemma exponent_from_above:
  "exponent_from n e x < e + int n \<Longrightarrow> x < 2 powi (exponent_from n e x + 1)"
  by (induction n e x rule: exponent_from.induct) (auto split: if_splits)

lemma exponent_from_upper:
  "x < 2 powi (k + 1) \<Longrightarrow> e \<le> k \<Longrightarrow> exponent_from n e x \<le> k"
proof (induction n e x rule: exponent_from.induct)
  case (1 e x)
  then show ?case by simp
next
  case (2 n e x)
  show ?case
  proof (cases "2 powi (e + 1) \<le> x")
    case True
    have "e \<noteq> k" using True 2(2) by auto
    with 2 True show ?thesis by simp
  next
    case False
    with 2 show ?thesis by simp
  qed
qed

lemma exponent_from_lower:
  "2 powi k \<le> x \<Longrightarrow> e \<le> k \<Longrightarrow> k \<le> e + int n \<Longrightarrow> k \<le> exponent_from n e x"
proof (induction n e x rule: exponent_from.induct)
  case (1 e x)
  then show ?case by simp
next
  case (2 n e x)
  show ?case
  proof (cases "2 powi (e + 1) \<le> x")
    case True
    show ?thesis
    proof (cases "e = k")
      case True
      then show ?thesis using exponent_from_ge [of e "Suc n" x] by simp
    next
      case False
      with 2 True show ?thesis by simp
    qed
  next
    case False
    have "k \<le> e"
    proof (rule ccontr)
      assume "\<not> k \<le> e"
      then have "(2::real) powi (e + 1) \<le> 2 powi k" by (intro power_int_increasing) auto
      with 2(2) False show False by simp
    qed
    with False show ?thesis by simp
  qed
qed

lemma round_half_even_bounds: "\<lfloor>y\<rfloor> \<le> round_half_even y \<and> round_half_even y \<le> \<lfloor>y\<rfloor> + 1"
  by (simp add: round_half_even_def Let_def)

lemma ulp_pos: "0 < (2::real) powi k"
  by simp

lemma ulp_scale: "(2::real) powi (e - 52) * 4503599627370496 = 2 powi e"
proof -
  have "(2::real) powi e = 2 powi ((e - 52) + 52)" by simp
  also have "\<dots> = 2 powi (e - 52) * 2 powi 52" by (rule power_int_add) simp
  finally show ?thesis by simp
qed

lemma binary64_round_nonneg:
  "0 \<le> y \<Longrightarrow> binary64_round y
     = of_int (round_half_even (y / 2 powi (binary64_exponent y - 52)))
         * 2 powi (binary64_exponent y - 52)"
  by (simp add: binary64_round_def Let_def)

lemma binary64_round_ge_1:
  assumes "1 \<le> y"
  shows "1 \<le> binary64_round y"
proof -
  define e where "e = binary64_exponent y"
  define ulp where "ulp = (2::real) powi (e - 52)"
  define n where "n = round_half_even (y / ulp)"
  have ulp: "0 < ulp" by (simp add: ulp_def)
  have sc: "ulp * 4503599627370496 = 2 powi e" unfolding ulp_def by (rule ulp_scale)
  have e0: "0 \<le> e" unfolding e_def binary64_exponent_def
    using assms by (intro exponent_from_lower) auto
  have "(2::real) powi (- 1022) \<le> 1" by (simp add: power_int_minus field_simps)
  then have le: "2 powi e \<le> y" unfolding e_def binary64_exponent_def
    using assms by (intro exponent_from_below) linarith
  have "4503599627370496 * ulp \<le> y" using le sc by (simp add: mult.commute)
  then have "4503599627370496 \<le> y / ulp" using ulp by (simp add: pos_le_divide_eq)
  then have "4503599627370496 \<le> \<lfloor>y / ulp\<rfloor>" by (simp add: le_floor_iff)
  then have "4503599627370496 \<le> n"
    unfolding n_def using round_half_even_bounds [of "y / ulp"] by linarith
  then have "(4503599627370496::real) \<le> of_int n" by linarith
  then have "4503599627370496 * ulp \<le> of_int n * ulp"
    using ulp by (intro mult_right_mono) auto
  moreover have "1 \<le> (2::real) powi e" using e0 by (intro one_le_power_int) auto
  ultimately have "1 \<le> of_int n * ulp" using sc by (simp add: mult.commute)
  moreover have "binary64_round y = of_int n * ulp"
    unfolding n_def ulp_def e_def using assms by (intro binary64_round_nonneg) auto
  ultimately show ?thesis by simp
qed

lemma binary64_round_near_1:
  assumes "1 - 1 / 2 ^ 54 \<le> y" "y < 1"
  shows "binary64_round y = 1"
proof -
  have y: "1 / 2 \<le> y" using assms(1) by simp
  have "binary64_exponent y \<le> - 1" unfolding binary64_exponent_def
    using assms(2) by (intro exponent_from_upper) auto
  moreover have "- 1 \<le> binary64_exponent y" unfolding binary64_exponent_def
    using y by (intro exponent_from_lower) (auto simp: power_int_minus)
  ultimately have e: "binary64_exponent y = - 1" by simp
  have ulp: "(2::real) powi (- 1 - 52) = 1 / 9007199254740992"
    by (simp add: power_int_minus field_simps)
  define z where "z = y * 9007199254740992"
  have z: "9007199254740992 - 1 / 2 \<le> z" "z < 9007199254740992"
    using assms by (simp_all add: z_def field_simps)
  have f: "\<lfloor>z\<rfloor> = 9007199254740991" using z by (simp add: floor_eq_iff)
  have "round_half_even z = 9007199254740992"
    using z by (simp add: round_half_even_def Let_def f)
  then show ?thesis using y
    by (simp add: binary64_round_nonneg e ulp z_def)
qed

lemma binary64_round_lt_1:
  assumes "0 \<le> y" "y < 1 - 1 / 2 ^ 54"
  shows "binary64_round y < 1"
proof -
  define e where "e = binary64_exponent y"
  define ulp where "ulp = (2::real) powi (e - 52)"
  define n where "n = round_half_even (y / ulp)"
  have ulp: "0 < ulp" by (simp add: ulp_def)
  have sc: "ulp * 4503599627370496 = 2 powi e" unfolding ulp_def by (rule ulp_scale)
  have r: "binary64_round y = of_int n * ulp"
    unfolding n_def ulp_def e_def using assms by (intro binary64_round_nonneg) auto
  have y1: "y < 1" using assms(2) by simp
  have e1: "e \<le> - 1" unfolding e_def binary64_exponent_def
    using y1 by (intro exponent_from_upper) auto
  have "y < 2 powi (e + 1)" unfolding e_def binary64_exponent_def
    using e1 [unfolded e_def binary64_exponent_def] by (intro exponent_from_above) auto
  also have "(2::real) powi (e + 1) = 2 powi e * 2" by (rule power_int_add_1) simp
  finally have yb: "y < ulp * 9007199254740992" using sc by simp
  then have zb: "y / ulp < 9007199254740992" using ulp by (simp add: pos_divide_less_eq mult.commute)
  then have fb: "\<lfloor>y / ulp\<rfloor> \<le> 9007199254740991" by (simp add: floor_less_iff)
  show ?thesis
  proof (cases "e = - 1")
    case True
    then have u: "ulp = 1 / 9007199254740992" by (simp add: ulp_def power_int_minus field_simps)
    have zh: "y / ulp < 9007199254740992 - 1 / 2" using assms(2) by (simp add: u field_simps)
    have "n \<le> 9007199254740991"
    proof (cases "\<lfloor>y / ulp\<rfloor> = 9007199254740991")
      case True
      with zh have "y / ulp - of_int \<lfloor>y / ulp\<rfloor> < 1 / 2" by simp
      then have "n = \<lfloor>y / ulp\<rfloor>" by (simp add: n_def round_half_even_def Let_def)
      with True show ?thesis by simp
    next
      case False
      with fb have "\<lfloor>y / ulp\<rfloor> \<le> 9007199254740990" by linarith
      then show ?thesis
        unfolding n_def using round_half_even_bounds [of "y / ulp"] by linarith
    qed
    then have "of_int n * ulp \<le> 9007199254740991 * ulp" using ulp by (intro mult_right_mono) auto
    then show ?thesis using r u by simp
  next
    case False
    with e1 have e2: "e + 1 \<le> - 1" by simp
    have "n \<le> 9007199254740992"
      unfolding n_def using round_half_even_bounds [of "y / ulp"] fb by linarith
    then have "of_int n * ulp \<le> 9007199254740992 * ulp" using ulp by (intro mult_right_mono) auto
    also have "9007199254740992 * ulp = 2 powi (e + 1)"
      using sc power_int_add_1 [of "2::real" e] by simp
    also have "(2::real) powi (e + 1) \<le> 2 powi (- 1)" using e2 by (intro power_int_increasing) auto
    finally show ?thesis using r by (simp add: power_int_minus)
  qed
qed

lemma binary64_round_neg: "y < 0 \<Longrightarrow> binary64_round y \<le> 0"
proof -
  assume "y < 0"
  have "0 \<le> \<lfloor>\<bar>y\<bar> / 2 powi (binary64_exponent \<bar>y\<bar> - 52)\<rfloor>" by simp
  then have "0 \<le> round_half_even (\<bar>y\<bar> / 2 powi (binary64_exponent \<bar>y\<bar> - 52))"
    using round_half_even_bounds [of "\<bar>y\<bar> / 2 powi (binary64_exponent \<bar>y\<bar> - 52)"] by linarith
  then show ?thesis using \<open>y < 0\<close> by (simp add: binary64_round_def Let_def)
qed

lemma float_sub_less_1_iff: "float_sub a b < 1 \<longleftrightarrow> a - b < 1 - 1 / 2 ^ 54"
proof -
  consider "a - b < 0" | "0 \<le> a - b" "a - b < 1 - 1 / 2 ^ 54"
    | "1 - 1 / 2 ^ 54 \<le> a - b" "a - b < 1" | "1 \<le> a - b" by linarith
  then show ?thesis
  proof cases
    case 1
    then show ?thesis using binary64_round_neg [of "a - b"] by (simp add: float_sub_def)
  next
    case 2
    then show ?thesis using binary64_round_lt_1 [of "a - b"] by (simp add: float_sub_def)
  next
    case 3
    then show ?thesis using binary64_round_near_1 [of "a - b"] by (simp add: float_sub_def)
  next
    case 4
    then show ?thesis using binary64_round_ge_1 [of "a - b"] by (simp add: float_sub_def)
  qed
qed


subsection \<open>The constructor\<close>

lemmas init_defs = QualityDefinition_init_def validate_optional_str_def validate_float_def
  validate_optional_float_def validate_max_def getitem_def add_data_def errors_of_def
  QUALITYDEFINITION_MIN_MAX_def QUALITYDEFINITION_MAX_def json_of_str_option_def
  json_of_float_option_def float_sub_less_1_iff

text \<open>
  What the constructor returns when every field passes its own check: only the difference of
  the ceiling and \<^verbatim>\<open>min\<close> is left to decide.
\<close>

lemma init_in_range:
  assumes "validate_optional_str ''title'' t = Inr t'" "0 \<le> m" "m \<le> 1998" "0 \<le> p"
    and "\<forall>x. v = Some x \<longrightarrow> 1 \<le> x \<and> x \<le> 2000"
  shows "QualityDefinition_init t (JNum m) (JNum p) (json_of_float_option v) =
     (if float_sub (case v of None \<Rightarrow> 2000 | Some x \<Rightarrow> min x 2000) m < 1
      then Inl (ValidationError [(''max'', value_error)])
      else Inr \<lparr>title = t', min_f = m, preferred = p,
                max_f = (case v of None \<Rightarrow> None | Some x \<Rightarrow> if x \<ge> 2000 then None else Some x)\<rparr>)"
  using assms
  by (cases v) (auto simp: init_defs Let_def split: json.splits)

text \<open>When the constructor returns an object, and which one.\<close>

lemma init_Inr_iff:
  "QualityDefinition_init ta mn pf mx = Inr q \<longleftrightarrow>
     (\<exists>t m p v. validate_optional_str ''title'' ta = Inr t
        \<and> mn = JNum m \<and> 0 \<le> m \<and> m \<le> 1998
        \<and> pf = JNum p \<and> 0 \<le> p
        \<and> mx = json_of_float_option v \<and> (\<forall>x. v = Some x \<longrightarrow> 1 \<le> x \<and> x \<le> 2000)
        \<and> \<not> float_sub (case v of None \<Rightarrow> 2000 | Some x \<Rightarrow> min x 2000) m < 1
        \<and> q = \<lparr>title = t, min_f = m, preferred = p,
                 max_f = (case v of None \<Rightarrow> None | Some x \<Rightarrow> if x \<ge> 2000 then None else Some x)\<rparr>)"
  (is "?L \<longleftrightarrow> ?R")
proof
  assume ?R
  then obtain t m p v where h: "validate_optional_str ''title'' ta = Inr t"
      "mn = JNum m" "0 \<le> m" "m \<le> 1998" "pf = JNum p" "0 \<le> p"
      "mx = json_of_float_option v" "\<forall>x. v = Some x \<longrightarrow> 1 \<le> x \<and> x \<le> 2000"
      "\<not> float_sub (case v of None \<Rightarrow> 2000 | Some x \<Rightarrow> min x 2000) m < 1"
      "q = \<lparr>title = t, min_f = m, preferred = p,
                 max_f = (case v of None \<Rightarrow> None | Some x \<Rightarrow> if x \<ge> 2000 then None else Some x)\<rparr>"
    by blast
  show ?L using init_in_range [OF h(1,3,4,6,8)] h(2,5,7,9,10) by simp
next
  assume L: ?L
  from L obtain t where t: "validate_optional_str ''title'' ta = Inr t"
    by (cases "validate_optional_str ''title'' ta")
      (auto simp: QualityDefinition_init_def Let_def errors_of_def add_data_def
         split: sum.splits error.splits)
  from L obtain m where m: "mn = JNum m" "0 \<le> m" "m \<le> 1998"
    by (cases "validate_float ''min'' (Some 0) (Some QUALITYDEFINITION_MIN_MAX) mn")
      (auto simp: QualityDefinition_init_def Let_def validate_float_def QUALITYDEFINITION_MIN_MAX_def
         split: sum.splits error.splits json.splits if_splits)
  from L obtain p where p: "pf = JNum p" "0 \<le> p"
    by (cases "validate_float ''preferred'' (Some 0) None pf")
      (auto simp: QualityDefinition_init_def Let_def validate_float_def
         split: sum.splits error.splits json.splits if_splits)
  from L obtain v where "validate_optional_float ''max'' (Some 1) (Some QUALITYDEFINITION_MAX) mx = Inr v"
    by (cases "validate_optional_float ''max'' (Some 1) (Some QUALITYDEFINITION_MAX) mx")
      (auto simp: QualityDefinition_init_def Let_def)
  then have v: "mx = json_of_float_option v" "\<forall>x. v = Some x \<longrightarrow> 1 \<le> x \<and> x \<le> 2000"
    by (auto simp: validate_optional_float_def validate_float_def
         QUALITYDEFINITION_MAX_def json_of_float_option_def
         split: sum.splits json.splits if_splits)
  from L show ?R
    using init_in_range [OF t m(2,3) p(2) v(2)] t m p v
    by (auto split: if_splits)
qed





text \<open>The \<^verbatim>\<open>max\<close> of a constructed object is the one given, or unset when that reaches 2000.\<close>

lemma init_max_kept:
  "QualityDefinition_init t mn pf (JNum x) = Inr q \<Longrightarrow>
     max_f q = (if x \<ge> 2000 then None else Some x)"
  by (auto simp: init_defs Let_def split: json.splits if_splits option.splits sum.splits error.splits)

text \<open>
  Claim C6. A construction with \<^verbatim>\<open>max\<close> set to the ceiling 2000 yields an object whose \<^verbatim>\<open>max\<close> is
  unset, and one with a \<^verbatim>\<open>max\<close> below the ceiling keeps it as given; both constructions do
  return an object when the other fields are in range (and, for the second, \<^verbatim>\<open>max\<close> is in
  range and at least 1 above \<^verbatim>\<open>min\<close>).
\<close>

theorem max_at_ceiling_is_unset:
  "(QualityDefinition_init t mn pf (JNum 2000) = Inr q \<longrightarrow> max_f q = None)
   \<and> (x < 2000 \<and> QualityDefinition_init t mn pf (JNum x) = Inr q' \<longrightarrow> max_f q' = Some x)
   \<and> (validate_optional_str ''title'' t = Inr t' \<and> 0 \<le> m \<and> m \<le> 1998 \<and> 0 \<le> p \<longrightarrow>
        QualityDefinition_init t (JNum m) (JNum p) (JNum 2000)
          = Inr \<lparr>title = t', min_f = m, preferred = p, max_f = None\<rparr>
        \<and> (1 \<le> x \<and> x < 2000 \<and> 1 \<le> x - m \<longrightarrow>
             QualityDefinition_init t (JNum m) (JNum p) (JNum x)
               = Inr \<lparr>title = t', min_f = m, preferred = p, max_f = Some x\<rparr>))"
proof (intro conjI impI)
  assume "QualityDefinition_init t mn pf (JNum 2000) = Inr q"
  then show "max_f q = None" by (auto dest: init_max_kept)
next
  assume "x < 2000 \<and> QualityDefinition_init t mn pf (JNum x) = Inr q'"
  then show "max_f q' = Some x" by (auto dest: init_max_kept)
next
  assume a: "validate_optional_str ''title'' t = Inr t' \<and> 0 \<le> m \<and> m \<le> 1998 \<and> 0 \<le> p"
  then show "QualityDefinition_init t (JNum m) (JNum p) (JNum 2000)
          = Inr \<lparr>title = t', min_f = m, preferred = p, max_f = None\<rparr>"
    using init_in_range [of t t' m p "Some 2000"]
    by (simp add: json_of_float_option_def float_sub_less_1_iff)
next
  assume a: "validate_optional_str ''title'' t = Inr t' \<and> 0 \<le> m \<and> m \<le> 1998 \<and> 0 \<le> p"
    and b: "1 \<le> x \<and> x < 2000 \<and> 1 \<le> x - m"
  then show "QualityDefinition_init t (JNum m) (JNum p) (JNum x)
               = Inr \<lparr>title = t', min_f = m, preferred = p, max_f = Some x\<rparr>"
    using init_in_range [of t t' m p "Some x"]
    by (simp add: json_of_float_option_def float_sub_less_1_iff)
qed

theorem max_at_ceiling_is_unset_witness:
  "QualityDefinition_init (JStr ''HD'') (JNum 2) (JNum 5) (JNum 2000)
     = Inr \<lparr>title = Some ''HD'', min_f = 2, preferred = 5, max_f = None\<rparr>
   \<and> QualityDefinition_init (JStr ''HD'') (JNum 2) (JNum 5) (JNum 100)
     = Inr \<lparr>title = Some ''HD'', min_f = 2, preferred = 5, max_f = Some 100\<rparr>"
  using max_at_ceiling_is_unset [of "JStr ''HD''" "JNum 2" "JNum 5" _ 100 _ "Some ''HD''" 2 5]
  by (simp add: validate_optional_str_def)

text \<open>
  Claim C7, as stated, bounds \<^verbatim>\<open>min\<close> by 399. The field is declared with
  \<open>le = QUALITYDEFINITION_MIN_MAX\<close>, which is 1998: a \<^verbatim>\<open>min\<close> of 400 is accepted.
\<close>

theorem min_400_accepted:
  "\<not> (0 \<le> (400::real) \<and> (400::real) \<le> 399)
   \<and> QualityDefinition_init JNull (JNum 400) (JNum 0) JNull
     = Inr \<lparr>title = None, min_f = 400, preferred = 0, max_f = None\<rparr>"
  by (simp add: init_defs)

text \<open>
  What the constructor returns when a field is outside its range. With \<^verbatim>\<open>min\<close> in range, the
  failures of \<^verbatim>\<open>preferred\<close> and \<^verbatim>\<open>max\<close> are listed in a \<^verbatim>\<open>ValidationError\<close>. With \<^verbatim>\<open>min\<close> out
  of range and \<^verbatim>\<open>max\<close> failing its own check, \<open>validate_max\<close> does not run and the failure of
  \<^verbatim>\<open>min\<close> is listed in a \<^verbatim>\<open>ValidationError\<close> too.
\<close>

lemma init_min_in_range_errors:
  assumes "0 \<le> m" "m \<le> 1998"
    and "p < 0 \<or> (\<exists>x. mx = JNum x \<and> (x < 1 \<or> 2000 < x))"
  shows "\<exists>es. QualityDefinition_init t (JNum m) (JNum p) mx = Inl (ValidationError es)
           \<and> (p < 0 \<longrightarrow> (''preferred'', greater_than_equal) \<in> set es)
           \<and> (\<forall>x. mx = JNum x \<and> x < 1 \<longrightarrow> (''max'', greater_than_equal) \<in> set es)
           \<and> (\<forall>x. mx = JNum x \<and> 2000 < x \<longrightarrow> (''max'', less_than_equal) \<in> set es)"
  using assms
  by (auto simp: init_defs Let_def split: json.splits if_splits option.splits sum.splits error.splits)

lemma init_min_and_max_out_of_range:
  assumes "m < 0 \<or> 1998 < m" "y < 1 \<or> 2000 < y"
  shows "\<exists>es. QualityDefinition_init t (JNum m) (JNum p) (JNum y) = Inl (ValidationError es)
           \<and> (m < 0 \<longrightarrow> (''min'', greater_than_equal) \<in> set es)
           \<and> (1998 < m \<longrightarrow> (''min'', less_than_equal) \<in> set es)
           \<and> (y < 1 \<longrightarrow> (''max'', greater_than_equal) \<in> set es)
           \<and> (2000 < y \<longrightarrow> (''max'', less_than_equal) \<in> set es)"
  using assms
  by (auto simp: QualityDefinition_init_def validate_float_def validate_optional_float_def
      errors_of_def QUALITYDEFINITION_MIN_MAX_def QUALITYDEFINITION_MAX_def Let_def)

text \<open>
  Claim C7, amended. The ranges enforced are \<^verbatim>\<open>min\<close> in [0, 1998], \<^verbatim>\<open>preferred\<close> at least 0 and
  a present \<^verbatim>\<open>max\<close> in [1, 2000]. The check of its field fails for a \<^verbatim>\<open>min\<close> outside
  [0, 1998], for a \<^verbatim>\<open>preferred\<close> below 0 and for a present \<^verbatim>\<open>max\<close> outside [1, 2000]. An input
  with \<^verbatim>\<open>min\<close> in range and \<^verbatim>\<open>preferred\<close> below 0 or a present \<^verbatim>\<open>max\<close> outside [1, 2000], and
  an input with \<^verbatim>\<open>min\<close> outside [0, 1998] and a present \<^verbatim>\<open>max\<close> outside [1, 2000], is rejected
  with a \<^verbatim>\<open>ValidationError\<close> that lists each field out of range. An input inside the ranges
  passes the check of each field, and the only failure left to the constructor is the gap
  error on \<^verbatim>\<open>max\<close>.
\<close>

theorem field_ranges:
  "(m < 0 \<longrightarrow>
      validate_float ''min'' (Some 0) (Some QUALITYDEFINITION_MIN_MAX) (JNum m)
        = Inl (''min'', greater_than_equal))
   \<and> (1998 < m \<longrightarrow>
      validate_float ''min'' (Some 0) (Some QUALITYDEFINITION_MIN_MAX) (JNum m)
        = Inl (''min'', less_than_equal))
   \<and> (p < 0 \<longrightarrow>
      validate_float ''preferred'' (Some 0) None (JNum p) = Inl (''preferred'', greater_than_equal))
   \<and> (y < 1 \<longrightarrow>
      validate_optional_float ''max'' (Some 1) (Some QUALITYDEFINITION_MAX) (JNum y)
        = Inl (''max'', greater_than_equal))
   \<and> (2000 < y \<longrightarrow>
      validate_optional_float ''max'' (Some 1) (Some QUALITYDEFINITION_MAX) (JNum y)
        = Inl (''max'', less_than_equal))
   \<and> (0 \<le> m \<and> m \<le> 1998 \<and> (p < 0 \<or> (\<exists>x. mx = JNum x \<and> (x < 1 \<or> 2000 < x))) \<longrightarrow>
      (\<exists>es. QualityDefinition_init t (JNum m) (JNum p) mx = Inl (ValidationError es)
           \<and> (p < 0 \<longrightarrow> (''preferred'', greater_than_equal) \<in> set es)
           \<and> (\<forall>x. mx = JNum x \<and> x < 1 \<longrightarrow> (''max'', greater_than_equal) \<in> set es)
           \<and> (\<forall>x. mx = JNum x \<and> 2000 < x \<longrightarrow> (''max'', less_than_equal) \<in> set es)))
   \<and> ((m < 0 \<or> 1998 < m) \<and> (y < 1 \<or> 2000 < y) \<longrightarrow>
      (\<exists>es. QualityDefinition_init t (JNum m) (JNum p) (JNum y) = Inl (ValidationError es)
           \<and> (m < 0 \<longrightarrow> (''min'', greater_than_equal) \<in> set es)
           \<and> (1998 < m \<longrightarrow> (''min'', less_than_equal) \<in> set es)
           \<and> (y < 1 \<longrightarrow> (''max'', greater_than_equal) \<in> set es)
           \<and> (2000 < y \<longrightarrow> (''max'', less_than_equal) \<in> set es)))
   \<and> (0 \<le> m \<and> m \<le> 1998 \<longrightarrow>
        validate_float ''min'' (Some 0) (Some QUALITYDEFINITION_MIN_MAX) (JNum m) = Inr m)
   \<and> (0 \<le> p \<longrightarrow> validate_float ''preferred'' (Some 0) None (JNum p) = Inr p)
   \<and> (1 \<le> y \<and> y \<le> 2000 \<longrightarrow>
        validate_optional_float ''max'' (Some 1) (Some QUALITYDEFINITION_MAX) (JNum y) = Inr (Some y))
   \<and> validate_optional_float ''max'' (Some 1) (Some QUALITYDEFINITION_MAX) JNull = Inr None
   \<and> (validate_optional_str ''title'' t = Inr t' \<and> 0 \<le> m \<and> m \<le> 1998 \<and> 0 \<le> p
        \<and> (\<forall>x. v = Some x \<longrightarrow> 1 \<le> x \<and> x \<le> 2000) \<longrightarrow>
        (\<forall>e. QualityDefinition_init t (JNum m) (JNum p) (json_of_float_option v) = Inl e \<longrightarrow>
              e = ValidationError [(''max'', value_error)]))"
proof (intro conjI impI)
  assume "m < 0"
  then show "validate_float ''min'' (Some 0) (Some QUALITYDEFINITION_MIN_MAX) (JNum m)
        = Inl (''min'', greater_than_equal)"
    by (simp add: validate_float_def QUALITYDEFINITION_MIN_MAX_def)
next
  assume "1998 < m"
  then show "validate_float ''min'' (Some 0) (Some QUALITYDEFINITION_MIN_MAX) (JNum m)
        = Inl (''min'', less_than_equal)"
    by (simp add: validate_float_def QUALITYDEFINITION_MIN_MAX_def)
next
  assume "p < 0"
  then show "validate_float ''preferred'' (Some 0) None (JNum p) = Inl (''preferred'', greater_than_equal)"
    by (simp add: validate_float_def)
next
  assume "y < 1"
  then show "validate_optional_float ''max'' (Some 1) (Some QUALITYDEFINITION_MAX) (JNum y)
        = Inl (''max'', greater_than_equal)"
    by (simp add: validate_optional_float_def validate_float_def QUALITYDEFINITION_MAX_def)
next
  assume "2000 < y"
  then show "validate_optional_float ''max'' (Some 1) (Some QUALITYDEFINITION_MAX) (JNum y)
        = Inl (''max'', less_than_equal)"
    by (simp add: validate_optional_float_def validate_float_def QUALITYDEFINITION_MAX_def)
next
  assume "0 \<le> m \<and> m \<le> 1998 \<and> (p < 0 \<or> (\<exists>x. mx = JNum x \<and> (x < 1 \<or> 2000 < x)))"
  then show "\<exists>es. QualityDefinition_init t (JNum m) (JNum p) mx = Inl (ValidationError es)
           \<and> (p < 0 \<longrightarrow> (''preferred'', greater_than_equal) \<in> set es)
           \<and> (\<forall>x. mx = JNum x \<and> x < 1 \<longrightarrow> (''max'', greater_than_equal) \<in> set es)
           \<and> (\<forall>x. mx = JNum x \<and> 2000 < x \<longrightarrow> (''max'', less_than_equal) \<in> set es)"
    using init_min_in_range_errors [of m p mx t] by blast
next
  assume "(m < 0 \<or> 1998 < m) \<and> (y < 1 \<or> 2000 < y)"
  then show "\<exists>es. QualityDefinition_init t (JNum m) (JNum p) (JNum y) = Inl (ValidationError es)
           \<and> (m < 0 \<longrightarrow> (''min'', greater_than_equal) \<in> set es)
           \<and> (1998 < m \<longrightarrow> (''min'', less_than_equal) \<in> set es)
           \<and> (y < 1 \<longrightarrow> (''max'', greater_than_equal) \<in> set es)
           \<and> (2000 < y \<longrightarrow> (''max'', less_than_equal) \<in> set es)"
    using init_min_and_max_out_of_range [of m y t p] by blast
next
  assume "0 \<le> m \<and> m \<le> 1998"
  then show "validate_float ''min'' (Some 0) (Some QUALITYDEFINITION_MIN_MAX) (JNum m) = Inr m"
    by (simp add: validate_float_def QUALITYDEFINITION_MIN_MAX_def)
next
  assume "0 \<le> p"
  then show "validate_float ''preferred'' (Some 0) None (JNum p) = Inr p"
    by (simp add: validate_float_def)
next
  assume "1 \<le> y \<and> y \<le> 2000"
  then show "validate_optional_float ''max'' (Some 1) (Some QUALITYDEFINITION_MAX) (JNum y) = Inr (Some y)"
    by (simp add: validate_optional_float_def validate_float_def QUALITYDEFINITION_MAX_def)
next
  show "validate_optional_float ''max'' (Some 1) (Some QUALITYDEFINITION_MAX) JNull = Inr None"
    by (simp add: validate_optional_float_def)
next
  assume "validate_optional_str ''title'' t = Inr t' \<and> 0 \<le> m \<and> m \<le> 1998 \<and> 0 \<le> p
        \<and> (\<forall>x. v = Some x \<longrightarrow> 1 \<le> x \<and> x \<le> 2000)"
  then show "\<forall>e. QualityDefinition_init t (JNum m) (JNum p) (json_of_float_option v) = Inl e \<longrightarrow>
              e = ValidationError [(''max'', value_error)]"
    by (simp add: init_in_range split: if_splits)
qed

theorem field_ranges_witness:
  "validate_float ''min'' (Some 0) (Some QUALITYDEFINITION_MIN_MAX) (JNum 1999)
     = Inl (''min'', less_than_equal)
   \<and> validate_float ''preferred'' (Some 0) None (JNum (-1)) = Inl (''preferred'', greater_than_equal)
   \<and> validate_optional_float ''max'' (Some 1) (Some QUALITYDEFINITION_MAX) (JNum 2001)
       = Inl (''max'', less_than_equal)
   \<and> QualityDefinition_init JNull (JNum 3) (JNum (-1)) (JNum 2001)
       = Inl (ValidationError [(''preferred'', greater_than_equal), (''max'', less_than_equal)])
   \<and> QualityDefinition_init JNull (JNum 1999) (JNum (-1)) (JNum 2001)
       = Inl (ValidationError [(''min'', less_than_equal), (''preferred'', greater_than_equal),
                               (''max'', less_than_equal)])
   \<and> validate_float ''min'' (Some 0) (Some QUALITYDEFINITION_MIN_MAX) (JNum 1998) = Inr 1998
   \<and> validate_float ''preferred'' (Some 0) None (JNum 7) = Inr 7
   \<and> validate_optional_float ''max'' (Some 1) (Some QUALITYDEFINITION_MAX) (JNum 1) = Inr (Some 1)
   \<and> QualityDefinition_init JNull (JNum 1998) (JNum 7) (JNum 1)
       = Inl (ValidationError [(''max'', value_error)])"
proof -
  have a: "QualityDefinition_init JNull (JNum 1999) (JNum (-1)) (JNum 2001)
       = Inl (ValidationError [(''min'', less_than_equal), (''preferred'', greater_than_equal),
                               (''max'', less_than_equal)])"
    by (simp add: init_defs)
  have b: "QualityDefinition_init JNull (JNum 3) (JNum (-1)) (JNum 2001)
       = Inl (ValidationError [(''preferred'', greater_than_equal), (''max'', less_than_equal)])"
    by (simp add: init_defs)
  have c: "QualityDefinition_init JNull (JNum 1998) (JNum 7) (JNum 1)
       = Inl (ValidationError [(''max'', value_error)])"
    by (simp add: init_defs)
  have h: "(0::real) \<le> 1998 \<and> (1998::real) \<le> 1998" "(0::real) \<le> 7" "(1::real) \<le> 1 \<and> (1::real) \<le> 2000"
    "(1998::real) < 1999" "(-1::real) < 0" "(2000::real) < 2001"
    by simp_all
  note fr = field_ranges [of 1998 7 1 JNull JNull None "Some 1"]
  note fr' = field_ranges [of 1999 "-1" 2001 JNull JNull None None]
  have d: "validate_float ''min'' (Some 0) (Some QUALITYDEFINITION_MIN_MAX) (JNum 1998) = Inr 1998"
    using fr h(1) by blast
  have e: "validate_float ''preferred'' (Some 0) None (JNum 7) = Inr 7"
    using fr h(2) by blast
  have f: "validate_optional_float ''max'' (Some 1) (Some QUALITYDEFINITION_MAX) (JNum 1) = Inr (Some 1)"
    using fr h(3) by blast
  have g: "validate_float ''min'' (Some 0) (Some QUALITYDEFINITION_MIN_MAX) (JNum 1999)
     = Inl (''min'', less_than_equal)"
    using fr' h(4) by blast
  have i: "validate_float ''preferred'' (Some 0) None (JNum (-1)) = Inl (''preferred'', greater_than_equal)"
    using fr' h(5) by blast
  have j: "validate_optional_float ''max'' (Some 1) (Some QUALITYDEFINITION_MAX) (JNum 2001)
       = Inl (''max'', less_than_equal)"
    using fr' h(6) by blast
  have k: "(0::real) \<le> 3 \<and> (3::real) \<le> 1998
      \<and> ((-1::real) < 0 \<or> (\<exists>x. JNum 2001 = JNum x \<and> (x < 1 \<or> 2000 < x)))"
    by simp
  have "\<exists>es. QualityDefinition_init JNull (JNum 3) (JNum (-1)) (JNum 2001) = Inl (ValidationError es)
      \<and> ((-1::real) < 0 \<longrightarrow> (''preferred'', greater_than_equal) \<in> set es)
      \<and> (\<forall>x. JNum 2001 = JNum x \<and> x < 1 \<longrightarrow> (''max'', greater_than_equal) \<in> set es)
      \<and> (\<forall>x. JNum 2001 = JNum x \<and> 2000 < x \<longrightarrow> (''max'', less_than_equal) \<in> set es)"
    using field_ranges [of 3 "-1" 2001 "JNum 2001" JNull None None] k by blast
  then have b': "\<exists>es. QualityDefinition_init JNull (JNum 3) (JNum (-1)) (JNum 2001)
        = Inl (ValidationError es)
      \<and> (''preferred'', greater_than_equal) \<in> set es \<and> (''max'', less_than_equal) \<in> set es"
    by auto
  have l: "((1999::real) < 0 \<or> (1998::real) < 1999) \<and> ((2001::real) < 1 \<or> (2000::real) < 2001)"
    by simp
  have "\<exists>es. QualityDefinition_init JNull (JNum 1999) (JNum (-1)) (JNum 2001) = Inl (ValidationError es)
      \<and> ((1999::real) < 0 \<longrightarrow> (''min'', greater_than_equal) \<in> set es)
      \<and> ((1998::real) < 1999 \<longrightarrow> (''min'', less_than_equal) \<in> set es)
      \<and> ((2001::real) < 1 \<longrightarrow> (''max'', greater_than_equal) \<in> set es)
      \<and> ((2000::real) < 2001 \<longrightarrow> (''max'', less_than_equal) \<in> set es)"
    using fr' l by blast
  then have a': "\<exists>es. QualityDefinition_init JNull (JNum 1999) (JNum (-1)) (JNum 2001)
        = Inl (ValidationError es)
      \<and> (''min'', less_than_equal) \<in> set es \<and> (''max'', less_than_equal) \<in> set es"
    by auto
  show ?thesis using a a' b b' c d e f g i j by blast
qed

section \<open>Properties of loading the defaults\<close>

lemma lower_char_idem: "lower_char (lower_char c) = lower_char c"
  by (simp add: lower_char_def Let_def)

lemma lower_idem: "lower (lower s) = lower s"
  by (simp add: lower_def lower_char_idem)





lemma init_title_unset:
  "QualityDefinition_init JNull mn pf mx = Inr q \<Longrightarrow> title q = None"
  by (auto simp: init_defs Let_def split: json.splits if_splits option.splits sum.splits error.splits)



lemma render_files_unmatched:
  "\<forall>f \<in> set files. lower (trash_id_json f) \<noteq> tid \<Longrightarrow>
     render_files files tid defs = (Inl (ConfigTrashIDNotFoundError tid), defs)"
  by (induction files) auto


text \<open>
  The third testable property of the specification: a local override of \<open>A\<close>, and a file with
  defaults for \<open>A\<close> and \<open>B\<close>.
\<close>

lemma lower_example: "lower ''BEF9'' = ''bef9''"
  by code_simp



text \<open>
  Claim C9. When the trash ID is set and no file of the directory has that ID, whatever the
  case of the letters, \<^verbatim>\<open>_render\<close> raises \<^verbatim>\<open>ConfigTrashIDNotFoundError\<close> with the ID in its
  message and leaves the object as it was. When the trash ID is unset (or empty), it returns at
  once and leaves the object as it was.
\<close>

theorem render_unmatched_trash_id:
  "(trash_id self = Some tid \<and> tid \<noteq> []
      \<and> (\<forall>f \<in> set files. lower (trash_id_json f) \<noteq> lower tid) \<longrightarrow>
      render files self = (Inl (ConfigTrashIDNotFoundError tid), self))
   \<and> (trash_id self = None \<or> trash_id self = Some [] \<longrightarrow> render files self = (Inr (), self))"
proof (intro conjI impI)
  assume a: "trash_id self = Some tid \<and> tid \<noteq> []
      \<and> (\<forall>f \<in> set files. lower (trash_id_json f) \<noteq> lower tid)"
  have "\<forall>f \<in> set files. lower (trash_id_json f) \<noteq> tid"
  proof
    fix f assume f: "f \<in> set files"
    show "lower (trash_id_json f) \<noteq> tid"
    proof
      assume "lower (trash_id_json f) = tid"
      then have "lower tid = lower (trash_id_json f)" using lower_idem by metis
      with a f show False by auto
    qed
  qed
  then have "render_files files tid (definitions self)
      = (Inl (ConfigTrashIDNotFoundError tid), definitions self)"
    by (rule render_files_unmatched)
  with a show "render files self = (Inl (ConfigTrashIDNotFoundError tid), self)"
    by (simp add: render_def)
next
  assume "trash_id self = None \<or> trash_id self = Some []"
  then show "render files self = (Inr (), self)"
    by (auto simp: render_def)
qed

lemma lower_example_other: "lower ''0a1b'' = ''0a1b''"
  by code_simp

theorem render_unmatched_trash_id_witness:
  "render
     [\<lparr>trash_id_json = ''BEF9'', qualities =
         [\<lparr>quality = ''A'', min_json = JNum 5, preferred_json = JNum 6, max_json = JNum 7\<rparr>]\<rparr>]
     \<lparr>trash_id = Some ''0a1b'', definitions =
         [(''A'', \<lparr>title = None, min_f = 1, preferred = 2, max_f = Some 3\<rparr>)]\<rparr>
   = (Inl (ConfigTrashIDNotFoundError ''0a1b''),
      \<lparr>trash_id = Some ''0a1b'', definitions =
         [(''A'', \<lparr>title = None, min_f = 1, preferred = 2, max_f = Some 3\<rparr>)]\<rparr>)
   \<and> render
     [\<lparr>trash_id_json = ''BEF9'', qualities =
         [\<lparr>quality = ''A'', min_json = JNum 5, preferred_json = JNum 6, max_json = JNum 7\<rparr>]\<rparr>]
     \<lparr>trash_id = None, definitions =
         [(''A'', \<lparr>title = None, min_f = 1, preferred = 2, max_f = Some 3\<rparr>)]\<rparr>
   = (Inr (),
      \<lparr>trash_id = None, definitions =
         [(''A'', \<lparr>title = None, min_f = 1, preferred = 2, max_f = Some 3\<rparr>)]\<rparr>)"
  using render_unmatched_trash_id [of
      "\<lparr>trash_id = Some ''0a1b'', definitions =
         [(''A'', \<lparr>title = None, min_f = 1, preferred = 2, max_f = Some 3\<rparr>)]\<rparr>"
      "''0a1b''"
      "[\<lparr>trash_id_json = ''BEF9'', qualities =
         [\<lparr>quality = ''A'', min_json = JNum 5, preferred_json = JNum 6, max_json = JNum 7\<rparr>]\<rparr>]"]
    render_unmatched_trash_id [of
      "\<lparr>trash_id = None, definitions =
         [(''A'', \<lparr>title = None, min_f = 1, preferred = 2, max_f = Some 3\<rparr>)]\<rparr>"
      "[]"
      "[\<lparr>trash_id_json = ''BEF9'', qualities =
         [\<lparr>quality = ''A'', min_json = JNum 5, preferred_json = JNum 6, max_json = JNum 7\<rparr>]\<rparr>]"]
  by (simp add: lower_example lower_example_other)

section \<open>Properties of the update\<close>

lemma py_or_title:
  "py_or (json_of_str_option (title q)) (JStr n) = JStr (effective_title n q)"
  by (simp add: py_or_def json_of_str_option_def effective_title_def split: option.splits)

lemma json_of_float_option_inj [simp]:
  "json_of_float_option a = json_of_float_option b \<longleftrightarrow> a = b"
  by (auto simp: json_of_float_option_def split: option.splits)

lemma get_update_remote_attrs_remote_map:
  "get_update_remote_attrs l r (remote_map n) = Inr (tier_differs n l r, changed_attrs n l r)"
  by (simp add: get_update_remote_attrs_def remote_map_def getattr_def and_then_def py_or_title
      tier_differs_def changed_attrs_def Let_def)


lemma map_of_dict_merge: "map_of (dict_merge a b) = map_of a ++ map_of (rev b)"
proof (induction b arbitrary: a)
  case Nil
  then show ?case by (simp add: dict_merge_def)
next
  case (Cons x b)
  obtain k v where x: "x = (k, v)" by (cases x)
  have "map_of (dict_merge a (x # b)) = map_of (dict_merge (AList.update k v a) b)"
    by (simp add: dict_merge_def x)
  also have "\<dots> = map_of (AList.update k v a) ++ map_of (rev b)"
    by (rule Cons.IH)
  also have "\<dots> = map_of a ++ map_of (rev (x # b))"
    by (simp add: update_conv' x map_add_upd_left fun_eq_iff map_add_def split: option.splits)
  finally show ?case .
qed

lemma changed_attrs_keys:
  "k \<notin> {''title'', ''minSize'', ''preferredSize'', ''maxSize''} \<Longrightarrow>
     map_of (rev (changed_attrs n l r)) k = None"
  by (simp add: changed_attrs_def)

lemma merge_changed_other:
  "k \<notin> {''title'', ''minSize'', ''preferredSize'', ''maxSize''} \<Longrightarrow>
     map_of (dict_merge record_json (changed_attrs n l r)) k = map_of record_json k"
  by (simp add: map_of_dict_merge map_add_def changed_attrs_keys)

lemma quality_name_merge:
  "quality_name (dict_merge record_json (changed_attrs n l r)) = quality_name record_json"
  by (simp add: quality_name_def getitem_def merge_changed_other)

lemma index_by_id_Inr:
  "index_by_id S acc = Inr rdj \<Longrightarrow>
     set rdj \<subseteq> set acc \<union> {(i, r). r \<in> set S \<and> map_of r ''id'' = Some i}
     \<and> (distinct (map fst acc) \<longrightarrow> distinct (map fst rdj))"
proof (induction S arbitrary: acc)
  case Nil
  then show ?case by simp
next
  case (Cons r S)
  from Cons.prems obtain i where i: "map_of r ''id'' = Some i"
    and rest: "index_by_id S (AList.update i r acc) = Inr rdj"
    by (auto simp: and_then_def getitem_def split: option.splits if_splits)
  have "set (AList.update i r acc) \<subseteq> set acc \<union> {(i, r)}"
    by (induction acc) auto
  moreover have "distinct (map fst acc) \<Longrightarrow> distinct (map fst (AList.update i r acc))"
    by (simp add: distinct_update)
  ultimately show ?case using Cons.IH [OF rest] i by auto
qed

lemma index_ids_Inr:
  "index_ids rdj acc = Inr ids \<Longrightarrow> map_of ids k = Some i \<Longrightarrow>
     map_of acc k = Some i \<or> (\<exists>record_json. (i, record_json) \<in> set rdj \<and> quality_name record_json = Inr k)"
proof (induction rdj arbitrary: acc)
  case Nil
  then show ?case by simp
next
  case (Cons x rdj)
  obtain j r where x: "x = (j, r)" by (cases x)
  from Cons.prems(1) obtain name where name: "quality_name r = Inr name"
    and rest: "index_ids rdj (AList.update name j acc) = Inr ids"
    by (auto simp: x and_then_def split: sum.splits if_splits)
  from Cons.IH [OF rest Cons.prems(2)] show ?case
  proof
    assume "map_of (AList.update name j acc) k = Some i"
    then show ?thesis using name x by (auto simp: update_conv' split: if_splits)
  next
    assume "\<exists>record_json. (i, record_json) \<in> set rdj \<and> quality_name record_json = Inr k"
    then show ?thesis by auto
  qed
qed

text \<open>The two indexes of \<open>update_remote\<close> agree: the ID found for a name is the ID of a record of the server, indexed under that ID, whose quality name is that name.\<close>

lemma indexes_agree:
  assumes "index_by_id server [] = Inr rdj" "index_ids rdj [] = Inr ids" "map_of ids k = Some i"
  shows "\<exists>record_json. map_of rdj i = Some record_json \<and> record_json \<in> set server
           \<and> map_of record_json ''id'' = Some i \<and> quality_name record_json = Inr k"
proof -
  from index_ids_Inr [OF assms(2,3)] obtain record_json where
    r: "(i, record_json) \<in> set rdj" "quality_name record_json = Inr k" by auto
  from index_by_id_Inr [OF assms(1)] have "distinct (map fst rdj)"
    and "set rdj \<subseteq> {(i, r). r \<in> set server \<and> map_of r ''id'' = Some i}" by auto
  then show ?thesis using r by auto
qed

lemma update_remote_loop_step:
  "update_remote_loop ((n, l) # rest) remote rdj ids c ps =
     (case map_of (definitions remote) n of
        None \<Rightarrow> (Inl (KeyError (JStr n)), ps)
      | Some r \<Rightarrow>
          if tier_differs n l r then
            (case map_of ids (JStr n) of
               None \<Rightarrow> (Inl (KeyError (JStr n)), ps)
             | Some i \<Rightarrow>
                 (case map_of rdj i of
                    None \<Rightarrow> (Inl (KeyError i), ps)
                  | Some record_json \<Rightarrow>
                      update_remote_loop rest remote rdj ids True
                        (ps @ [(i, dict_merge record_json (changed_attrs n l r))])))
          else update_remote_loop rest remote rdj ids c ps)"
  by (simp add: getitem_def get_update_remote_attrs_remote_map split: option.splits)

declare update_remote_loop.simps(2) [simp del]

lemma update_remote_loop_success:
  "update_remote_loop defs remote rdj ids c ps = (Inr c', ps') \<Longrightarrow>
     (\<forall>item \<in> set defs. map_of (definitions remote) (fst item) \<noteq> None)
     \<and> c' = (c \<or> (\<exists>item \<in> set defs. marked_changed remote item))
     \<and> (\<exists>new. ps' = ps @ new
            \<and> list_all2 (writer_call remote rdj ids) new (filter (marked_changed remote) defs))"
proof (induction defs arbitrary: c ps)
  case Nil
  then show ?case by simp
next
  case (Cons item rest)
  obtain n l where item: "item = (n, l)" by (cases item)
  from Cons.prems obtain r where r: "map_of (definitions remote) n = Some r"
    by (auto simp: item update_remote_loop_step split: option.splits)
  show ?case
  proof (cases "tier_differs n l r")
    case False
    then have mc: "\<not> marked_changed remote item" by (simp add: marked_changed_def item r)
    from Cons.prems False have "update_remote_loop rest remote rdj ids c ps = (Inr c', ps')"
      by (simp add: item update_remote_loop_step r)
    from Cons.IH [OF this] show ?thesis using mc r by (auto simp: item)
  next
    case True
    then have mc: "marked_changed remote item" by (simp add: marked_changed_def item r)
    from Cons.prems True obtain i record_json where i: "map_of ids (JStr n) = Some i"
      and rj: "map_of rdj i = Some record_json"
      and rest: "update_remote_loop rest remote rdj ids True
          (ps @ [(i, dict_merge record_json (changed_attrs n l r))]) = (Inr c', ps')"
      by (auto simp: item update_remote_loop_step r split: option.splits)
    have wc: "writer_call remote rdj ids (i, dict_merge record_json (changed_attrs n l r)) item"
      by (simp add: writer_call_def item r i rj)
    from Cons.IH [OF rest] obtain new where
      new: "ps' = (ps @ [(i, dict_merge record_json (changed_attrs n l r))]) @ new"
        "list_all2 (writer_call remote rdj ids) new (filter (marked_changed remote) rest)"
      and c': "c' = (True \<or> (\<exists>item \<in> set rest. marked_changed remote item))"
      and dom: "\<forall>item \<in> set rest. map_of (definitions remote) (fst item) \<noteq> None"
      by blast
    have "ps' = ps @ ((i, dict_merge record_json (changed_attrs n l r)) # new)"
      using new(1) by simp
    moreover have "list_all2 (writer_call remote rdj ids)
        ((i, dict_merge record_json (changed_attrs n l r)) # new)
        (filter (marked_changed remote) (item # rest))"
      using new(2) wc mc by simp
    ultimately show ?thesis using c' dom mc r by (auto simp: item)
  qed
qed

lemma update_remote_loop_any:
  "update_remote_loop defs remote rdj ids c ps = (res, ps') \<Longrightarrow>
     \<exists>new. ps' = ps @ new
        \<and> (\<forall>call \<in> set new. \<exists>item \<in> set defs.
              marked_changed remote item \<and> writer_call remote rdj ids call item)"
proof (induction defs arbitrary: c ps)
  case Nil
  then show ?case by simp
next
  case (Cons item rest)
  obtain n l where item: "item = (n, l)" by (cases item)
  show ?case
  proof (cases "map_of (definitions remote) n")
    case None
    then show ?thesis using Cons.prems by (simp add: item update_remote_loop_step)
  next
    case (Some r)
    show ?thesis
    proof (cases "tier_differs n l r")
      case False
      from Cons.prems False have "update_remote_loop rest remote rdj ids c ps = (res, ps')"
        by (simp add: item update_remote_loop_step Some)
      from Cons.IH [OF this] show ?thesis by auto
    next
      case True
      then have mc: "marked_changed remote item" by (simp add: marked_changed_def item Some)
      show ?thesis
      proof (cases "map_of ids (JStr n)")
        case None
        then show ?thesis using Cons.prems True Some by (simp add: item update_remote_loop_step)
      next
        case i: (Some i)
        show ?thesis
        proof (cases "map_of rdj i")
          case None
          then show ?thesis using Cons.prems True Some i
            by (simp add: item update_remote_loop_step)
        next
          case rj: (Some record_json)
          have wc: "writer_call remote rdj ids (i, dict_merge record_json (changed_attrs n l r)) item"
            by (simp add: writer_call_def item Some i rj)
          from Cons.prems True have "update_remote_loop rest remote rdj ids True
              (ps @ [(i, dict_merge record_json (changed_attrs n l r))]) = (res, ps')"
            by (simp add: item update_remote_loop_step Some i rj)
          from Cons.IH [OF this] obtain new where
            new: "ps' = (ps @ [(i, dict_merge record_json (changed_attrs n l r))]) @ new"
              "\<forall>call \<in> set new. \<exists>item \<in> set rest.
                 marked_changed remote item \<and> writer_call remote rdj ids call item"
            by blast
          have "ps' = ps @ ((i, dict_merge record_json (changed_attrs n l r)) # new)"
            using new(1) by simp
          moreover have "\<forall>call \<in> set ((i, dict_merge record_json (changed_attrs n l r)) # new).
              \<exists>it \<in> set (item # rest). marked_changed remote it \<and> writer_call remote rdj ids call it"
            using new(2) wc mc by auto
          ultimately show ?thesis by blast
        qed
      qed
    qed
  qed
qed

lemma update_remote_indexed:
  "index_by_id server [] = Inr rdj \<Longrightarrow> index_ids rdj [] = Inr ids \<Longrightarrow>
     update_remote server self remote = update_remote_loop (definitions self) remote rdj ids False []"
  by (simp add: update_remote_def)

lemma update_remote_not_indexed:
  "(\<forall>rdj ids. index_by_id server [] = Inr rdj \<longrightarrow> index_ids rdj [] \<noteq> Inr ids) \<Longrightarrow>
     \<exists>e. update_remote server self remote = (Inl e, [])"
  by (auto simp: update_remote_def split: sum.splits)

lemma update_remote_cases:
  obtains (indexed) rdj ids where "index_by_id server [] = Inr rdj" "index_ids rdj [] = Inr ids"
      "update_remote server self remote = update_remote_loop (definitions self) remote rdj ids False []"
  | (failed) e where "update_remote server self remote = (Inl e, [])"
  using update_remote_indexed update_remote_not_indexed by (metis (no_types, opaque_lifting))

lemma writer_call_name:
  assumes "index_by_id server [] = Inr rdj" "index_ids rdj [] = Inr ids"
    and "writer_call remote rdj ids call item"
  shows "quality_name (snd call) = Inr (JStr (fst item))
     \<and> (\<exists>record_json \<in> set server. map_of record_json ''id'' = Some (fst call)
           \<and> quality_name record_json = Inr (JStr (fst item)))"
proof -
  from assms(3) obtain r i record_json where
    i: "map_of ids (JStr (fst item)) = Some i" and rj: "map_of rdj i = Some record_json"
    and call: "call = (i, dict_merge record_json (changed_attrs (fst item) (snd item) r))"
    by (auto simp: writer_call_def split: option.splits)
  from indexes_agree [OF assms(1,2) i] rj have
    "record_json \<in> set server" "map_of record_json ''id'' = Some i"
    "quality_name record_json = Inr (JStr (fst item))" by auto
  then show ?thesis using call by (auto simp: quality_name_merge)
qed

lemma update_remote_calls:
  assumes "call \<in> set (snd (update_remote server self remote))"
  shows "\<exists>item \<in> set (definitions self). marked_changed remote item
           \<and> quality_name (snd call) = Inr (JStr (fst item))
           \<and> (\<exists>record_json \<in> set server. map_of record_json ''id'' = Some (fst call)
                 \<and> quality_name record_json = Inr (JStr (fst item)))"
proof (cases rule: update_remote_cases [of server self remote])
  case (indexed rdj ids)
  obtain res ps where rp: "update_remote_loop (definitions self) remote rdj ids False [] = (res, ps)"
    by (cases "update_remote_loop (definitions self) remote rdj ids False []")
  from update_remote_loop_any [OF rp] assms indexed(3) rp obtain item where
    "item \<in> set (definitions self)" "marked_changed remote item" "writer_call remote rdj ids call item"
    by auto
  then show ?thesis using writer_call_name [OF indexed(1,2)] by blast
next
  case (failed e)
  then show ?thesis using assms by simp
qed

lemma list_all2_map_eq:
  "list_all2 (\<lambda>x y. f x = g y) xs ys \<Longrightarrow> map f xs = map g ys"
  by (induction rule: list_all2_induct) auto

text \<open>The example, evaluated.\<close>

lemmas example_defs = example_server_def example_record_X_def example_record_Y_def
  example_record_Z_def example_local_def example_remote_def example_local_unknown_def

lemmas update_remote_eval = update_remote_def quality_name_def and_then_def getitem_def
  update_remote_loop_step tier_differs_def effective_title_def changed_attrs_def dict_merge_def

lemma example_from_remote: "from_remote example_server = Inr example_remote"
  by (simp add: example_defs from_remote_def from_remote_item_def quality_name_def and_then_def
      init_defs)

lemma example_update_remote:
  "update_remote example_server example_local example_remote
     = (Inr True, [(JNum 1, AList.update ''minSize'' (JNum 2) example_record_X)])"
  by (simp add: example_defs update_remote_eval)

lemma example_marked_changed:
  "filter (marked_changed example_remote) (definitions example_local)
     = [(''X'', \<lparr>title = None, min_f = 2, preferred = 5, max_f = Some 100\<rparr>)]"
  by (simp add: example_defs marked_changed_def tier_differs_def effective_title_def)

lemma example_indexes:
  "index_by_id example_server []
     = Inr [(JNum 1, example_record_X), (JNum 2, example_record_Y), (JNum 3, example_record_Z)]"
  "index_ids [(JNum 1, example_record_X), (JNum 2, example_record_Y), (JNum 3, example_record_Z)] []
     = Inr [(JStr ''X'', JNum 1), (JStr ''Y'', JNum 2), (JStr ''Z'', JNum 3)]"
  by (simp_all add: example_defs quality_name_def and_then_def getitem_def)

text \<open>
  Claim C1. Every call of \<^verbatim>\<open>api_put\<close> that \<open>update_remote\<close> makes, however the run ends, sends
  the record of a local quality name whose tier is marked changed, that is, differs from the
  remote tier in the title (the quality name standing for an unset or blank one), \<^verbatim>\<open>min\<close>,
  \<^verbatim>\<open>preferred\<close> or \<^verbatim>\<open>max\<close>. When the run returns, the quality names written are, in order,
  exactly the local names marked changed, and the value returned is the disjunction of the
  marks, which holds exactly when a call was made.
\<close>

theorem update_remote_writes_only_differing:
  "(\<forall>call \<in> set (snd (update_remote server self remote)).
      \<exists>item \<in> set (definitions self).
        marked_changed remote item \<and> quality_name (snd call) = Inr (JStr (fst item)))
   \<and> (update_remote server self remote = (Inr changed, puts) \<longrightarrow>
        map (\<lambda>call. quality_name (snd call)) puts
          = map (\<lambda>item. Inr (JStr (fst item))) (filter (marked_changed remote) (definitions self))
        \<and> changed = (\<exists>item \<in> set (definitions self). marked_changed remote item)
        \<and> changed = (puts \<noteq> []))"
proof (intro conjI impI ballI)
  fix call assume "call \<in> set (snd (update_remote server self remote))"
  from update_remote_calls [OF this]
  show "\<exists>item \<in> set (definitions self).
        marked_changed remote item \<and> quality_name (snd call) = Inr (JStr (fst item))"
    by blast
next
  assume ok: "update_remote server self remote = (Inr changed, puts)"
  then obtain rdj ids where idx: "index_by_id server [] = Inr rdj" "index_ids rdj [] = Inr ids"
    and loop: "update_remote_loop (definitions self) remote rdj ids False [] = (Inr changed, puts)"
    by (cases rule: update_remote_cases [of server self remote]) auto
  from update_remote_loop_success [OF loop] have
    ch: "changed = (\<exists>item \<in> set (definitions self). marked_changed remote item)"
    and la: "list_all2 (writer_call remote rdj ids) puts
               (filter (marked_changed remote) (definitions self))"
    by auto
  from la have "list_all2 (\<lambda>call item. quality_name (snd call) = Inr (JStr (fst item))) puts
               (filter (marked_changed remote) (definitions self))"
    by (rule list_all2_mono) (use writer_call_name [OF idx] in blast)
  then show "map (\<lambda>call. quality_name (snd call)) puts
          = map (\<lambda>item. Inr (JStr (fst item))) (filter (marked_changed remote) (definitions self))"
    by (rule list_all2_map_eq)
  show "changed = (\<exists>item \<in> set (definitions self). marked_changed remote item)" by (rule ch)
  have "(puts \<noteq> []) = (filter (marked_changed remote) (definitions self) \<noteq> [])"
    using list_all2_lengthD [OF la] by (metis length_0_conv)
  also have "\<dots> = (\<exists>item \<in> set (definitions self). marked_changed remote item)"
    by (simp add: filter_empty_conv)
  finally show "changed = (puts \<noteq> [])" using ch by simp
qed

theorem update_remote_writes_only_differing_witness:
  "update_remote example_server example_local example_remote
     = (Inr True, [(JNum 1, AList.update ''minSize'' (JNum 2) example_record_X)])
   \<and> map (\<lambda>call. quality_name (snd call))
        [(JNum 1, AList.update ''minSize'' (JNum 2) example_record_X)] = [Inr (JStr ''X'')]
   \<and> filter (marked_changed example_remote) (definitions example_local)
        = [(''X'', \<lparr>title = None, min_f = 2, preferred = 5, max_f = Some 100\<rparr>)]"
proof -
  note ex = example_update_remote
  from update_remote_writes_only_differing
    [of example_server example_local example_remote True
        "[(JNum 1, AList.update ''minSize'' (JNum 2) example_record_X)]"] ex
  have "map (\<lambda>call. quality_name (snd call))
          [(JNum 1, AList.update ''minSize'' (JNum 2) example_record_X)]
        = map (\<lambda>item. Inr (JStr (fst item)))
            (filter (marked_changed example_remote) (definitions example_local))"
    by blast
  then show ?thesis using ex example_marked_changed by simp
qed

lemma length_fold_api_put: "length (fold api_put ps server) = length server"
  by (induction ps arbitrary: server) (auto simp: api_put_def)

lemma fold_api_put_untouched:
  "k < length server \<Longrightarrow> \<forall>call \<in> set ps. map_of (server ! k) ''id'' \<noteq> Some (fst call) \<Longrightarrow>
     fold api_put ps server ! k = server ! k"
proof (induction ps arbitrary: server)
  case Nil
  then show ?case by simp
next
  case (Cons call ps)
  have k: "api_put call server ! k = server ! k" "k < length (api_put call server)"
    using Cons.prems by (auto simp: api_put_def)
  then have "fold api_put ps (api_put call server) ! k = api_put call server ! k"
    using Cons.prems(2) by (intro Cons.IH) auto
  then show ?case using k by simp
qed

text \<open>
  Claim C3. Every call of \<^verbatim>\<open>api_put\<close>, however the run ends, sends the record of a quality name
  of the local definitions to the ID of the server's record of that name. With the IDs of the
  server distinct, no call goes to the ID of a record whose quality name is not a local one,
  and such a record is the same on the server after the calls; the server has as many
  records after as before.
\<close>

theorem update_remote_leaves_remote_only:
  "(\<forall>call \<in> set (snd (update_remote server self remote)).
      \<exists>item \<in> set (definitions self).
        quality_name (snd call) = Inr (JStr (fst item))
        \<and> (\<exists>record_json \<in> set server. map_of record_json ''id'' = Some (fst call)
              \<and> quality_name record_json = Inr (JStr (fst item))))
   \<and> (distinct (map (\<lambda>record_json. map_of record_json ''id'') server) \<and> k < length server
        \<and> quality_name (server ! k) \<notin> (\<lambda>item. Inr (JStr (fst item))) ` set (definitions self) \<longrightarrow>
        (\<forall>call \<in> set (snd (update_remote server self remote)).
            map_of (server ! k) ''id'' \<noteq> Some (fst call))
        \<and> fold api_put (snd (update_remote server self remote)) server ! k = server ! k)
   \<and> length (fold api_put (snd (update_remote server self remote)) server) = length server"
proof (intro conjI impI)
  show a: "\<forall>call \<in> set (snd (update_remote server self remote)).
      \<exists>item \<in> set (definitions self).
        quality_name (snd call) = Inr (JStr (fst item))
        \<and> (\<exists>record_json \<in> set server. map_of record_json ''id'' = Some (fst call)
              \<and> quality_name record_json = Inr (JStr (fst item)))"
    using update_remote_calls [of _ server self remote] by blast
  show "length (fold api_put (snd (update_remote server self remote)) server) = length server"
    by (rule length_fold_api_put)
  assume h: "distinct (map (\<lambda>record_json. map_of record_json ''id'') server) \<and> k < length server
        \<and> quality_name (server ! k) \<notin> (\<lambda>item. Inr (JStr (fst item))) ` set (definitions self)"
  then have inj: "inj_on (\<lambda>record_json. map_of record_json ''id'') (set server)"
    by (simp add: distinct_map)
  show b: "\<forall>call \<in> set (snd (update_remote server self remote)).
            map_of (server ! k) ''id'' \<noteq> Some (fst call)"
  proof
    fix call assume c: "call \<in> set (snd (update_remote server self remote))"
    show "map_of (server ! k) ''id'' \<noteq> Some (fst call)"
    proof
      assume eq: "map_of (server ! k) ''id'' = Some (fst call)"
      from a c obtain item record_json where it: "item \<in> set (definitions self)"
        and rj: "record_json \<in> set server" "map_of record_json ''id'' = Some (fst call)"
          "quality_name record_json = Inr (JStr (fst item))" by blast
      have "server ! k \<in> set server" using h by simp
      with rj(1,2) eq have "record_json = server ! k"
        using inj_onD [OF inj, of record_json "server ! k"] by simp
      with rj(3) it h show False by auto
    qed
  qed
  show "fold api_put (snd (update_remote server self remote)) server ! k = server ! k"
    using h b by (intro fold_api_put_untouched) auto
qed

theorem update_remote_leaves_remote_only_witness:
  "snd (update_remote example_server example_local example_remote)
     = [(JNum 1, AList.update ''minSize'' (JNum 2) example_record_X)]
   \<and> quality_name (example_server ! 2) = Inr (JStr ''Z'')
   \<and> fold api_put (snd (update_remote example_server example_local example_remote))
        example_server ! 2 = example_record_Z
   \<and> length (fold api_put (snd (update_remote example_server example_local example_remote))
        example_server) = 3"
proof -
  have d: "distinct (map (\<lambda>record_json. map_of record_json ''id'') example_server)"
    by (simp add: example_defs)
  have k: "2 < length example_server" by (simp add: example_defs)
  have z: "quality_name (example_server ! 2) = Inr (JStr ''Z'')"
    by (simp add: example_defs quality_name_def and_then_def getitem_def)
  have n: "quality_name (example_server ! 2)
      \<notin> (\<lambda>item. Inr (JStr (fst item))) ` set (definitions example_local)"
    by (simp add: z) (simp add: example_defs)
  have e: "example_server ! 2 = example_record_Z" "length example_server = 3"
    by (simp_all add: example_defs)
  from update_remote_leaves_remote_only [of example_server example_local example_remote 2] d k n
  have "fold api_put (snd (update_remote example_server example_local example_remote))
          example_server ! 2 = example_server ! 2"
    and "length (fold api_put (snd (update_remote example_server example_local example_remote))
          example_server) = length example_server"
    by blast+
  then show ?thesis using z e example_update_remote by simp
qed

lemma update_remote_loop_missing:
  assumes "\<exists>item \<in> set defs. map_of (definitions remote) (fst item) = None"
    and "\<forall>k i. map_of ids k = Some i \<longrightarrow> map_of rdj i \<noteq> None"
  shows "\<exists>m \<in> fst ` set defs. fst (update_remote_loop defs remote rdj ids c ps) = Inl (KeyError (JStr m))"
  using assms(1)
proof (induction defs arbitrary: c ps)
  case Nil
  then show ?case by simp
next
  case (Cons item rest)
  obtain n l where item: "item = (n, l)" by (cases item)
  show ?case
  proof (cases "map_of (definitions remote) n")
    case None
    then show ?thesis by (simp add: item update_remote_loop_step)
  next
    case (Some r)
    with Cons.prems have rest: "\<exists>item \<in> set rest. map_of (definitions remote) (fst item) = None"
      by (auto simp: item)
    show ?thesis
    proof (cases "tier_differs n l r")
      case False
      then show ?thesis
        using Cons.IH [OF rest, of c ps] Some by (auto simp: item update_remote_loop_step)
    next
      case True
      show ?thesis
      proof (cases "map_of ids (JStr n)")
        case None
        then show ?thesis using Some True by (simp add: item update_remote_loop_step)
      next
        case i: (Some i)
        then obtain record_json where rj: "map_of rdj i = Some record_json"
          using assms(2) by blast
        show ?thesis
          using Cons.IH [OF rest, of True "ps @ [(i, dict_merge record_json (changed_attrs n l r))]"]
            Some True i rj
          by (auto simp: item update_remote_loop_step)
      qed
    qed
  qed
qed

lemma update_remote_loop_first_missing:
  assumes "find (\<lambda>item. map_of (definitions remote) (fst item) = None) defs = Some (m, l)"
    and "\<forall>item \<in> set (takeWhile (\<lambda>item. map_of (definitions remote) (fst item) \<noteq> None) defs).
           map_of ids (JStr (fst item)) \<noteq> None"
    and "\<forall>k i. map_of ids k = Some i \<longrightarrow> map_of rdj i \<noteq> None"
  shows "fst (update_remote_loop defs remote rdj ids c ps) = Inl (KeyError (JStr m))"
  using assms(1,2)
proof (induction defs arbitrary: c ps)
  case Nil
  then show ?case by simp
next
  case (Cons item rest)
  obtain n l' where item: "item = (n, l')" by (cases item)
  show ?case
  proof (cases "map_of (definitions remote) n")
    case None
    then show ?thesis using Cons.prems(1) by (simp add: item update_remote_loop_step)
  next
    case (Some r)
    with Cons.prems have rest: "find (\<lambda>item. map_of (definitions remote) (fst item) = None) rest = Some (m, l)"
      "\<forall>item \<in> set (takeWhile (\<lambda>item. map_of (definitions remote) (fst item) \<noteq> None) rest).
           map_of ids (JStr (fst item)) \<noteq> None"
      by (auto simp: item)
    obtain i where i: "map_of ids (JStr n) = Some i" using Cons.prems(2) Some by (auto simp: item)
    then obtain record_json where "map_of rdj i = Some record_json" using assms(3) by blast
    then show ?thesis
      using Cons.IH [OF rest] Some i by (simp add: item update_remote_loop_step)
  qed
qed

lemma indexes_total:
  assumes "index_by_id server [] = Inr rdj" "index_ids rdj [] = Inr ids"
  shows "\<forall>k i. map_of ids k = Some i \<longrightarrow> map_of rdj i \<noteq> None"
  using indexes_agree [OF assms] by fastforce

text \<open>
  Claim C10. With the two indexes built, a local quality name that the remote definitions lack
  makes \<open>update_remote\<close> raise \<^verbatim>\<open>KeyError\<close> on a local name: on the first missing name when
  the names before it have an ID. So a run that returns had every local name among the
  remote definitions. Every call made goes to the ID of a record the server has: no
  definition is added.
\<close>

theorem update_remote_requires_remote_names:
  "(index_by_id server [] = Inr rdj \<and> index_ids rdj [] = Inr ids
      \<and> (\<exists>item \<in> set (definitions self). map_of (definitions remote) (fst item) = None) \<longrightarrow>
      (\<exists>m \<in> fst ` set (definitions self).
          fst (update_remote server self remote) = Inl (KeyError (JStr m))))
   \<and> (index_by_id server [] = Inr rdj \<and> index_ids rdj [] = Inr ids
      \<and> find (\<lambda>item. map_of (definitions remote) (fst item) = None) (definitions self) = Some (m, l)
      \<and> (\<forall>item \<in> set (takeWhile (\<lambda>item. map_of (definitions remote) (fst item) \<noteq> None)
                            (definitions self)).
            map_of ids (JStr (fst item)) \<noteq> None) \<longrightarrow>
      fst (update_remote server self remote) = Inl (KeyError (JStr m)))
   \<and> (fst (update_remote server self remote) = Inr changed \<longrightarrow>
        fst ` set (definitions self) \<subseteq> fst ` set (definitions remote))
   \<and> (\<forall>call \<in> set (snd (update_remote server self remote)).
        \<exists>record_json \<in> set server. map_of record_json ''id'' = Some (fst call))"
proof (intro conjI impI)
  assume h: "index_by_id server [] = Inr rdj \<and> index_ids rdj [] = Inr ids
      \<and> (\<exists>item \<in> set (definitions self). map_of (definitions remote) (fst item) = None)"
  then have "update_remote server self remote
      = update_remote_loop (definitions self) remote rdj ids False []"
    by (simp add: update_remote_indexed)
  then show "\<exists>m \<in> fst ` set (definitions self).
          fst (update_remote server self remote) = Inl (KeyError (JStr m))"
    using update_remote_loop_missing [of "definitions self" remote ids rdj False "[]"]
      indexes_total [of server rdj ids] h by simp
next
  assume h: "index_by_id server [] = Inr rdj \<and> index_ids rdj [] = Inr ids
      \<and> find (\<lambda>item. map_of (definitions remote) (fst item) = None) (definitions self) = Some (m, l)
      \<and> (\<forall>item \<in> set (takeWhile (\<lambda>item. map_of (definitions remote) (fst item) \<noteq> None)
                            (definitions self)).
            map_of ids (JStr (fst item)) \<noteq> None)"
  then have "update_remote server self remote
      = update_remote_loop (definitions self) remote rdj ids False []"
    by (simp add: update_remote_indexed)
  then show "fst (update_remote server self remote) = Inl (KeyError (JStr m))"
    using update_remote_loop_first_missing [of remote "definitions self" m l ids rdj False "[]"]
      indexes_total [of server rdj ids] h by simp
next
  assume ok: "fst (update_remote server self remote) = Inr changed"
  then obtain puts where ok': "update_remote server self remote = (Inr changed, puts)"
    by (cases "update_remote server self remote") auto
  then obtain rdj ids where
    loop: "update_remote_loop (definitions self) remote rdj ids False [] = (Inr changed, puts)"
    by (cases rule: update_remote_cases [of server self remote]) auto
  from update_remote_loop_success [OF loop]
  have *: "\<forall>item \<in> set (definitions self). map_of (definitions remote) (fst item) \<noteq> None"
    by blast
  show "fst ` set (definitions self) \<subseteq> fst ` set (definitions remote)"
  proof
    fix a assume "a \<in> fst ` set (definitions self)"
    then obtain item where "item \<in> set (definitions self)" "a = fst item" by auto
    with * obtain y where "map_of (definitions remote) a = Some y" by auto
    then have "(a, y) \<in> set (definitions remote)" by (rule map_of_SomeD)
    then show "a \<in> fst ` set (definitions remote)" by (rule rev_image_eqI) simp
  qed
next
  show "\<forall>call \<in> set (snd (update_remote server self remote)).
        \<exists>record_json \<in> set server. map_of record_json ''id'' = Some (fst call)"
    using update_remote_calls [of _ server self remote] by blast
qed

lemma example_update_remote_unknown:
  "update_remote example_server example_local_unknown example_remote
     = (Inl (KeyError (JStr ''W'')), [(JNum 1, AList.update ''minSize'' (JNum 2) example_record_X)])"
  by (simp add: example_defs update_remote_eval)

theorem update_remote_requires_remote_names_witness:
  "update_remote example_server example_local_unknown example_remote
     = (Inl (KeyError (JStr ''W'')), [(JNum 1, AList.update ''minSize'' (JNum 2) example_record_X)])
   \<and> ''W'' \<in> fst ` set (definitions example_local_unknown)
   \<and> map_of (definitions example_remote) ''W'' = None
   \<and> fst ` set (definitions example_local) \<subseteq> fst ` set (definitions example_remote)"
proof -
  have w: "''W'' \<in> fst ` set (definitions example_local_unknown)"
    "map_of (definitions example_remote) ''W'' = None"
    by (simp_all add: example_defs)
  have f: "find (\<lambda>item. map_of (definitions example_remote) (fst item) = None)
             (definitions example_local_unknown)
           = Some (''W'', \<lparr>title = None, min_f = 3, preferred = 4, max_f = None\<rparr>)"
    by (simp add: example_defs)
  have t: "\<forall>item \<in> set (takeWhile (\<lambda>item. map_of (definitions example_remote) (fst item) \<noteq> None)
                            (definitions example_local_unknown)).
            map_of [(JStr ''X'', JNum 1), (JStr ''Y'', JNum 2), (JStr ''Z'', JNum 3)]
              (JStr (fst item)) \<noteq> None"
    by (simp add: example_defs)
  from update_remote_requires_remote_names
    [of example_server
        "[(JNum 1, example_record_X), (JNum 2, example_record_Y), (JNum 3, example_record_Z)]"
        "[(JStr ''X'', JNum 1), (JStr ''Y'', JNum 2), (JStr ''Z'', JNum 3)]"
        example_local_unknown example_remote
        "''W''" "\<lparr>title = None, min_f = 3, preferred = 4, max_f = None\<rparr>"]
    example_indexes f t
  have k: "fst (update_remote example_server example_local_unknown example_remote)
      = Inl (KeyError (JStr ''W''))"
    by blast
  have "fst (update_remote example_server example_local example_remote) = Inr True"
    by (simp add: example_update_remote)
  with update_remote_requires_remote_names
    [of example_server _ _ example_local example_remote _ _ True]
  have "fst ` set (definitions example_local) \<subseteq> fst ` set (definitions example_remote)"
    by blast
  then show ?thesis using w k example_update_remote_unknown by blast
qed

lemma map_of_rev_changed_attrs: "map_of (rev (changed_attrs n l r)) = map_of (changed_attrs n l r)"
  by (rule ext) (simp add: changed_attrs_def)



section \<open>Idempotence of the update\<close>

text \<open>The definitions that a construction can return.\<close>

lemma constructed_iff:
  "constructed l \<longleftrightarrow>
     0 \<le> min_f l \<and> min_f l \<le> 1998 \<and> 0 \<le> preferred l
     \<and> (\<forall>x. max_f l = Some x \<longrightarrow> 1 \<le> x \<and> x < 2000 \<and> \<not> float_sub x (min_f l) < 1)"
proof -
  have t: "\<And>t. validate_optional_str ''title'' (json_of_str_option t) = Inr t"
    by (simp add: validate_optional_str_def json_of_str_option_def split: option.splits)
  show ?thesis
    unfolding constructed_def init_Inr_iff
    by (cases l; cases "max_f l") (auto simp: t float_sub_less_1_iff)
qed

lemma from_remote_item_Inr_iff:
  "from_remote_item r = Inr (name, q) \<longleftrightarrow>
     quality_name r = Inr name \<and> hashable name
     \<and> (\<exists>tj mj pj. map_of r ''title'' = Some tj \<and> map_of r ''minSize'' = Some mj
           \<and> map_of r ''preferredSize'' = Some pj
           \<and> QualityDefinition_init (if tj \<noteq> name then tj else JNull) mj pj
                (case map_of r ''maxSize'' of None \<Rightarrow> JNull | Some v \<Rightarrow> v) = Inr q)"
  by (auto simp: from_remote_item_def and_then_def getitem_def split: sum.splits option.splits if_splits)

lemma merged_lookup:
  "map_of (dict_merge r (changed_attrs s l q)) k
     = (case map_of (changed_attrs s l q) k of Some v \<Rightarrow> Some v | None \<Rightarrow> map_of r k)"
  by (simp add: map_of_dict_merge map_of_rev_changed_attrs map_add_def)

lemma changed_attrs_lookup:
  "map_of (changed_attrs s l q) ''title''
     = (if effective_title s l \<noteq> effective_title s q then Some (JStr (effective_title s l)) else None)"
  "map_of (changed_attrs s l q) ''minSize''
     = (if min_f l \<noteq> min_f q then Some (JNum (min_f l)) else None)"
  "map_of (changed_attrs s l q) ''preferredSize''
     = (if preferred l \<noteq> preferred q then Some (JNum (preferred l)) else None)"
  "map_of (changed_attrs s l q) ''maxSize''
     = (if max_f l \<noteq> max_f q then Some (json_of_float_option (max_f l)) else None)"
  by (simp_all add: changed_attrs_def)

lemma effective_title_cases:
  "effective_title s l = s \<or> (effective_title s l \<noteq> [] \<and> title l = Some (effective_title s l))"
  by (auto simp: effective_title_def split: option.splits)

text \<open>
  A record with the changed attributes of a local definition merged over it reads back as a
  definition that does not differ from the local one.
\<close>

lemma from_remote_item_merged:
  assumes "from_remote_item r = Inr (JStr s, q)" "constructed l"
  shows "\<exists>q'. from_remote_item (dict_merge r (changed_attrs s l q)) = Inr (JStr s, q')
            \<and> \<not> tier_differs s l q'"
proof -
  let ?r' = "dict_merge r (changed_attrs s l q)"
  from assms(1) obtain tj mj pj where
    qn: "quality_name r = Inr (JStr s)"
    and tj: "map_of r ''title'' = Some tj" and mj: "map_of r ''minSize'' = Some mj"
    and pj: "map_of r ''preferredSize'' = Some pj"
    and init: "QualityDefinition_init (if tj \<noteq> JStr s then tj else JNull) mj pj
                (case map_of r ''maxSize'' of None \<Rightarrow> JNull | Some v \<Rightarrow> v) = Inr q"
    unfolding from_remote_item_Inr_iff by blast
  from init obtain t m p v where
    t: "validate_optional_str ''title'' (if tj \<noteq> JStr s then tj else JNull) = Inr t"
    and m: "mj = JNum m" and p: "pj = JNum p"
    and v: "(case map_of r ''maxSize'' of None \<Rightarrow> JNull | Some v \<Rightarrow> v) = json_of_float_option v"
      "\<forall>x. v = Some x \<longrightarrow> 1 \<le> x \<and> x \<le> 2000"
    and q: "q = \<lparr>title = t, min_f = m, preferred = p,
                 max_f = (case v of None \<Rightarrow> None | Some x \<Rightarrow> if x \<ge> 2000 then None else Some x)\<rparr>"
    unfolding init_Inr_iff by blast
  from assms(2) have l: "0 \<le> min_f l" "min_f l \<le> 1998" "0 \<le> preferred l"
    "\<forall>x. max_f l = Some x \<longrightarrow> 1 \<le> x \<and> x < 2000 \<and> \<not> float_sub x (min_f l) < 1"
    unfolding constructed_iff by auto
  define tj' where "tj' = (if effective_title s l \<noteq> effective_title s q
      then JStr (effective_title s l) else tj)"
  define v' where "v' = (if max_f l \<noteq> max_f q then max_f l else v)"
  have qn': "quality_name ?r' = Inr (JStr s)"
    using qn by (simp add: quality_name_merge)
  have tj': "map_of ?r' ''title'' = Some tj'"
    by (simp add: merged_lookup changed_attrs_lookup tj tj'_def)
  have mj': "map_of ?r' ''minSize'' = Some (JNum (min_f l))"
    by (simp add: merged_lookup changed_attrs_lookup mj m q)
  have pj': "map_of ?r' ''preferredSize'' = Some (JNum (preferred l))"
    by (simp add: merged_lookup changed_attrs_lookup pj p q)
  have mx': "(case map_of ?r' ''maxSize'' of None \<Rightarrow> JNull | Some v \<Rightarrow> v) = json_of_float_option v'"
    using v(1) by (simp add: merged_lookup changed_attrs_lookup v'_def)
  have v'b: "\<forall>x. v' = Some x \<longrightarrow> 1 \<le> x \<and> x \<le> 2000"
    using v(2) l(4) by (auto simp: v'_def)
  have v'n: "(case v' of None \<Rightarrow> None | Some x \<Rightarrow> if x \<ge> 2000 then None else Some x) = max_f l"
    using l(4) by (auto simp: v'_def q split: option.splits)
  have gap: "\<not> float_sub (case v' of None \<Rightarrow> 2000 | Some x \<Rightarrow> min x 2000) (min_f l) < 1"
  proof (cases v')
    case None
    then show ?thesis using l(2) by (simp add: float_sub_less_1_iff)
  next
    case (Some x)
    show ?thesis
    proof (cases "x \<ge> 2000")
      case True
      then show ?thesis using Some l(2) by (simp add: float_sub_less_1_iff)
    next
      case False
      with v'n Some have "max_f l = Some x" by simp
      with l(4) False Some show ?thesis by simp
    qed
  qed
  obtain t' where t': "validate_optional_str ''title'' (if tj' \<noteq> JStr s then tj' else JNull) = Inr t'"
    and et: "effective_title s \<lparr>title = t', min_f = min_f l, preferred = preferred l, max_f = max_f l\<rparr>
      = effective_title s l"
  proof (cases "effective_title s l \<noteq> effective_title s q")
    case False
    then have e: "tj' = tj" by (simp add: tj'_def)
    have 1: "validate_optional_str ''title'' (if tj' \<noteq> JStr s then tj' else JNull) = Inr t"
      unfolding e by (rule t)
    have 2: "effective_title s \<lparr>title = t, min_f = min_f l, preferred = preferred l, max_f = max_f l\<rparr>
      = effective_title s l" using False by (simp add: effective_title_def q)
    show ?thesis by (rule that [OF 1 2])
  next
    case True
    then have e: "tj' = JStr (effective_title s l)" by (simp add: tj'_def)
    show ?thesis
    proof (cases "effective_title s l = s")
      case same: True
      have 1: "validate_optional_str ''title'' (if tj' \<noteq> JStr s then tj' else JNull) = Inr None"
        unfolding e by (simp add: same validate_optional_str_def)
      have "effective_title s \<lparr>title = None, min_f = min_f l, preferred = preferred l, max_f = max_f l\<rparr>
        = s" by (simp add: effective_title_def)
      then have 2: "effective_title s \<lparr>title = None, min_f = min_f l, preferred = preferred l, max_f = max_f l\<rparr>
        = effective_title s l" by (simp add: same)
      show ?thesis by (rule that [OF 1 2])
    next
      case other: False
      with effective_title_cases [of s l]
      have n: "effective_title s l \<noteq> []" by blast
      have 1: "validate_optional_str ''title'' (if tj' \<noteq> JStr s then tj' else JNull)
          = Inr (Some (effective_title s l))"
        unfolding e using other by (simp add: validate_optional_str_def)
      have 2: "effective_title s \<lparr>title = Some (effective_title s l), min_f = min_f l,
          preferred = preferred l, max_f = max_f l\<rparr> = effective_title s l"
        using n by (subst effective_title_def) simp
      show ?thesis by (rule that [OF 1 2])
    qed
  qed
  let ?q' = "\<lparr>title = t', min_f = min_f l, preferred = preferred l, max_f = max_f l\<rparr>"
  have "QualityDefinition_init (if tj' \<noteq> JStr s then tj' else JNull) (JNum (min_f l))
          (JNum (preferred l)) (json_of_float_option v') = Inr ?q'"
    unfolding init_Inr_iff using t' l(1-3) v'b v'n gap by auto
  then have "from_remote_item ?r' = Inr (JStr s, ?q')"
    unfolding from_remote_item_Inr_iff using qn' tj' mj' pj' mx' by simp
  moreover have "\<not> tier_differs s l ?q'"
    using et by (simp add: tier_differs_def)
  ultimately show ?thesis by blast
qed

lemma map_of_map_find:
  "map_of (map (\<lambda>r. (f r, g r)) xs) k = map_option g (find (\<lambda>r. f r = k) xs)"
  by (induction xs) auto

lemma from_remote_definitions_Inr:
  assumes "from_remote_definitions S acc = Inr d"
  shows "(\<forall>r \<in> set S. \<exists>k q. from_remote_item r = Inr (k, q))
     \<and> map_of d = map_of (rev (map (\<lambda>r. projr (from_remote_item r)) S) @ acc)"
  using assms
proof (induction S arbitrary: acc)
  case Nil
  then show ?case by simp
next
  case (Cons r S)
  from Cons.prems obtain k q where r: "from_remote_item r = Inr (k, q)"
    and rest: "from_remote_definitions S (AList.update k q acc) = Inr d"
    by (auto simp: and_then_def split: sum.splits)
  have "map_of (rev (map (\<lambda>r. projr (from_remote_item r)) S) @ AList.update k q acc)
      = map_of (rev (map (\<lambda>r. projr (from_remote_item r)) (r # S)) @ acc)"
    by (simp add: r update_conv' fun_eq_iff map_add_def split: option.splits)
  then show ?case using Cons.IH [OF rest] r by auto
qed

lemma from_remote_definitions_total:
  "\<forall>r \<in> set S. \<exists>kq. from_remote_item r = Inr kq \<Longrightarrow> \<exists>d. from_remote_definitions S acc = Inr d"
  by (induction S arbitrary: acc) (auto simp: and_then_def)

lemma validate_definitions_Nil:
  "validate_definitions d = ([], defs) \<Longrightarrow> d = map (\<lambda>(s, q). (JStr s, q)) defs"
proof (induction d arbitrary: defs)
  case Nil
  then show ?case by simp
next
  case (Cons x d)
  obtain k q where x: "x = (k, q)" by (cases x)
  show ?case using Cons by (cases k) (auto simp: x split: prod.splits)
qed

lemma validate_definitions_str:
  "\<forall>k \<in> fst ` set d. \<exists>s. k = JStr s \<Longrightarrow> \<exists>defs. validate_definitions d = ([], defs)"
proof (induction d)
  case Nil
  then show ?case by simp
next
  case (Cons x d)
  then obtain s q where x: "x = (JStr s, q)" by (cases x) auto
  from Cons obtain defs where "validate_definitions d = ([], defs)" by auto
  then show ?case by (simp add: x)
qed

lemma map_of_str_keys: "map_of (map (\<lambda>(s, q). (JStr s, q)) defs) (JStr n) = map_of defs n"
  by (induction defs) auto

lemma from_remote_Inr:
  assumes "from_remote S = Inr remote"
  shows "(\<forall>r \<in> set S. \<exists>s q. from_remote_item r = Inr (JStr s, q))
     \<and> (\<forall>n. map_of (definitions remote) n
            = map_of (rev (map (\<lambda>r. projr (from_remote_item r)) S)) (JStr n))"
proof -
  from assms obtain d defs where d: "from_remote_definitions S [] = Inr d"
    and v: "validate_definitions d = ([], defs)" and r: "remote = \<lparr>trash_id = None, definitions = defs\<rparr>"
    by (auto simp: from_remote_def and_then_def split: sum.splits prod.splits list.splits)
  from from_remote_definitions_Inr [OF d] have
    it: "\<forall>r \<in> set S. \<exists>k q. from_remote_item r = Inr (k, q)"
    and m: "map_of d = map_of (rev (map (\<lambda>r. projr (from_remote_item r)) S))" by auto
  have dd: "d = map (\<lambda>(s, q). (JStr s, q)) defs" using v by (rule validate_definitions_Nil)
  have "\<forall>r \<in> set S. \<exists>s q. from_remote_item r = Inr (JStr s, q)"
  proof
    fix r assume rS: "r \<in> set S"
    with it obtain k q where kq: "from_remote_item r = Inr (k, q)" by blast
    then have "(k, q) \<in> set (rev (map (\<lambda>r. projr (from_remote_item r)) S))"
      using rS by (auto intro: rev_image_eqI)
    then have "map_of (rev (map (\<lambda>r. projr (from_remote_item r)) S)) k \<noteq> None"
      by (metis (no_types, lifting) map_of_eq_None_iff fst_conv image_eqI)
    with m have "map_of d k \<noteq> None" by simp
    then have "k \<in> fst ` set d" by (simp add: map_of_eq_None_iff)
    with dd obtain s where "k = JStr s" by auto
    with kq show "\<exists>s q. from_remote_item r = Inr (JStr s, q)" by blast
  qed
  moreover have "\<forall>n. map_of (definitions remote) n
            = map_of (rev (map (\<lambda>r. projr (from_remote_item r)) S)) (JStr n)"
  proof
    fix n
    have "map_of (definitions remote) n = map_of d (JStr n)"
      by (simp add: r dd map_of_str_keys)
    then show "map_of (definitions remote) n
            = map_of (rev (map (\<lambda>r. projr (from_remote_item r)) S)) (JStr n)"
      by (simp add: m)
  qed
  ultimately show ?thesis by blast
qed

lemma from_remote_total:
  assumes "\<forall>r \<in> set S. \<exists>s q. from_remote_item r = Inr (JStr s, q)"
  shows "\<exists>remote. from_remote S = Inr remote"
proof -
  from assms have "\<forall>r \<in> set S. \<exists>kq. from_remote_item r = Inr kq" by blast
  from from_remote_definitions_total [OF this] obtain d where d: "from_remote_definitions S [] = Inr d"
    by blast
  from from_remote_definitions_Inr [OF d]
  have m: "map_of d = map_of (rev (map (\<lambda>r. projr (from_remote_item r)) S))" by auto
  have "\<forall>k \<in> fst ` set d. \<exists>s. k = JStr s"
  proof
    fix k assume "k \<in> fst ` set d"
    then have "map_of d k \<noteq> None" by (simp add: map_of_eq_None_iff)
    with m obtain q where "map_of (rev (map (\<lambda>r. projr (from_remote_item r)) S)) k = Some q" by auto
    then have "(k, q) \<in> set (rev (map (\<lambda>r. projr (from_remote_item r)) S))" by (rule map_of_SomeD)
    then obtain r where "r \<in> set S" "projr (from_remote_item r) = (k, q)" by auto
    with assms show "\<exists>s. k = JStr s" by fastforce
  qed
  from validate_definitions_str [OF this] obtain defs where "validate_definitions d = ([], defs)"
    by blast
  with d show ?thesis by (simp add: from_remote_def and_then_def)
qed

lemma update_fresh: "k \<notin> fst ` set al \<Longrightarrow> AList.update k v al = al @ [(k, v)]"
  by (induction al) auto

lemma index_by_id_wf:
  "index_by_id S acc = Inr rdj \<Longrightarrow> \<forall>r \<in> set S. \<exists>i. map_of r ''id'' = Some i \<and> hashable i"
  by (induction S arbitrary: acc)
    (auto simp: and_then_def getitem_def split: option.splits if_splits)

lemma index_by_id_total:
  "\<forall>r \<in> set S. \<exists>i. map_of r ''id'' = Some i \<and> hashable i \<Longrightarrow> \<exists>rdj. index_by_id S acc = Inr rdj"
  by (induction S arbitrary: acc) (auto simp: and_then_def getitem_def)

lemma index_by_id_distinct_eq:
  assumes "index_by_id S acc = Inr rdj" "distinct (map (\<lambda>r. map_of r ''id'') S)"
    and "\<forall>r \<in> set S. \<forall>i. map_of r ''id'' = Some i \<longrightarrow> i \<notin> fst ` set acc"
  shows "rdj = acc @ map (\<lambda>r. (the (map_of r ''id''), r)) S"
  using assms
proof (induction S arbitrary: acc)
  case Nil
  then show ?case by simp
next
  case (Cons r S)
  from Cons.prems(1) obtain i where i: "map_of r ''id'' = Some i"
    and rest: "index_by_id S (AList.update i r acc) = Inr rdj"
    by (auto simp: and_then_def getitem_def split: option.splits if_splits)
  have fresh: "i \<notin> fst ` set acc" using Cons.prems(3) i by simp
  then have u: "AList.update i r acc = acc @ [(i, r)]" by (rule update_fresh)
  have "\<forall>r' \<in> set S. \<forall>j. map_of r' ''id'' = Some j \<longrightarrow> j \<notin> fst ` set (acc @ [(i, r)])"
    using Cons.prems(2,3) i by (auto simp: rev_image_eqI)
  with Cons.IH [of "acc @ [(i, r)]"] rest u Cons.prems(2) show ?case using i by simp
qed

lemma index_ids_map_of:
  "index_ids rdj acc = Inr ids \<Longrightarrow>
     map_of ids = map_of (rev (map (\<lambda>(i, r). (projr (quality_name r), i)) rdj) @ acc)"
proof (induction rdj arbitrary: acc)
  case Nil
  then show ?case by simp
next
  case (Cons x rdj)
  obtain j r where x: "x = (j, r)" by (cases x)
  from Cons.prems obtain name where name: "quality_name r = Inr name"
    and rest: "index_ids rdj (AList.update name j acc) = Inr ids"
    by (auto simp: x and_then_def split: sum.splits if_splits)
  have "map_of (rev (map (\<lambda>(i, r). (projr (quality_name r), i)) rdj) @ AList.update name j acc)
      = map_of (rev (map (\<lambda>(i, r). (projr (quality_name r), i)) (x # rdj)) @ acc)"
    by (simp add: x name update_conv' fun_eq_iff map_add_def split: option.splits)
  then show ?case using Cons.IH [OF rest] by simp
qed

lemma index_ids_total:
  "\<forall>x \<in> set rdj. \<exists>k. quality_name (snd x) = Inr k \<and> hashable k \<Longrightarrow>
     \<exists>ids. index_ids rdj acc = Inr ids"
proof (induction rdj arbitrary: acc)
  case Nil
  then show ?case by simp
next
  case (Cons x rdj)
  obtain j r where x: "x = (j, r)" by (cases x)
  from Cons.prems obtain k where "quality_name r = Inr k" "hashable k" by (auto simp: x)
  then show ?case using Cons by (auto simp: x and_then_def)
qed

lemma from_remote_item_name:
  "from_remote_item r = Inr (k, q) \<Longrightarrow> quality_name r = Inr k"
  by (simp add: from_remote_item_Inr_iff)

text \<open>
  The remote definition of a name and the ID indexed for it both come from the last record of
  the server with that quality name.
\<close>

lemma remote_lookup:
  assumes "from_remote S = Inr remote"
  shows "map_of (definitions remote) n
     = map_option (\<lambda>r. snd (projr (from_remote_item r)))
         (find (\<lambda>r. quality_name r = Inr (JStr n)) (rev S))"
proof -
  from from_remote_Inr [OF assms] have
    wf: "\<forall>r \<in> set S. \<exists>s q. from_remote_item r = Inr (JStr s, q)"
    and lk: "map_of (definitions remote) n
            = map_of (rev (map (\<lambda>r. projr (from_remote_item r)) S)) (JStr n)" by auto
  have "rev (map (\<lambda>r. projr (from_remote_item r)) S)
      = map (\<lambda>r. (fst (projr (from_remote_item r)), snd (projr (from_remote_item r)))) (rev S)"
    by (simp add: rev_map)
  then have "map_of (definitions remote) n
      = map_option (\<lambda>r. snd (projr (from_remote_item r)))
          (find (\<lambda>r. fst (projr (from_remote_item r)) = JStr n) (rev S))"
    using lk by (simp only: map_of_map_find)
  moreover have "find (\<lambda>r. fst (projr (from_remote_item r)) = JStr n) (rev S)
      = find (\<lambda>r. quality_name r = Inr (JStr n)) (rev S)"
  proof (rule find_cong [OF refl])
    fix r assume "r \<in> set (rev S)"
    with wf obtain s q where "from_remote_item r = Inr (JStr s, q)" by auto
    then show "(fst (projr (from_remote_item r)) = JStr n) = (quality_name r = Inr (JStr n))"
      using from_remote_item_name [of r "JStr s" q] by auto
  qed
  ultimately show ?thesis by simp
qed

lemma ids_lookup:
  assumes "index_by_id S [] = Inr rdj" "index_ids rdj [] = Inr ids"
    and "distinct (map (\<lambda>r. map_of r ''id'') S)"
    and "\<forall>r \<in> set S. \<exists>k. quality_name r = Inr k"
  shows "map_of ids k
     = map_option (\<lambda>r. the (map_of r ''id'')) (find (\<lambda>r. quality_name r = Inr k) (rev S))"
proof -
  have rdj: "rdj = map (\<lambda>r. (the (map_of r ''id''), r)) S"
    using index_by_id_distinct_eq [OF assms(1,3)] by simp
  have "map_of ids = map_of (rev (map (\<lambda>(i, r). (projr (quality_name r), i)) rdj))"
    using index_ids_map_of [OF assms(2)] by simp
  also have "rev (map (\<lambda>(i, r). (projr (quality_name r), i)) rdj)
      = map (\<lambda>r. (projr (quality_name r), the (map_of r ''id''))) (rev S)"
    by (simp add: rdj rev_map comp_def)
  finally have "map_of ids k
      = map_option (\<lambda>r. the (map_of r ''id'')) (find (\<lambda>r. projr (quality_name r) = k) (rev S))"
    by (simp only: map_of_map_find)
  moreover have "find (\<lambda>r. projr (quality_name r) = k) (rev S)
      = find (\<lambda>r. quality_name r = Inr k) (rev S)"
  proof (rule find_cong [OF refl])
    fix r assume "r \<in> set (rev S)"
    with assms(4) obtain k' where "quality_name r = Inr k'" by auto
    then show "(projr (quality_name r) = k) = (quality_name r = Inr k)" by simp
  qed
  ultimately show ?thesis by simp
qed

lemma find_in_set: "find P xs = Some x \<Longrightarrow> x \<in> set xs \<and> P x"
  by (induction xs) (auto split: if_splits)

text \<open>The server after a list of writes to distinct IDs, each body keeping its ID.\<close>

lemma fold_api_put_map:
  assumes "\<forall>call \<in> set ps. map_of (snd call) ''id'' = Some (fst call)" "distinct (map fst ps)"
  shows "fold api_put ps S
     = map (\<lambda>r. case find (\<lambda>call. map_of r ''id'' = Some (fst call)) ps of
                  Some call \<Rightarrow> snd call | None \<Rightarrow> r) S"
  using assms
proof (induction ps arbitrary: S)
  case Nil
  then show ?case by simp
next
  case (Cons c ps)
  have none: "find (\<lambda>call. map_of (snd c) ''id'' = Some (fst call)) ps = None"
  proof (rule ccontr)
    assume "find (\<lambda>call. map_of (snd c) ''id'' = Some (fst call)) ps \<noteq> None"
    then obtain call where "find (\<lambda>call. map_of (snd c) ''id'' = Some (fst call)) ps = Some call"
      by auto
    from find_in_set [OF this] Cons.prems show False by (auto simp: rev_image_eqI)
  qed
  have "fold api_put (c # ps) S = fold api_put ps (api_put c S)" by simp
  also have "\<dots> = map (\<lambda>r. case find (\<lambda>call. map_of r ''id'' = Some (fst call)) ps of
                  Some call \<Rightarrow> snd call | None \<Rightarrow> r) (api_put c S)"
    using Cons.prems by (intro Cons.IH) auto
  also have "\<dots> = map (\<lambda>r. case find (\<lambda>call. map_of r ''id'' = Some (fst call)) (c # ps) of
                  Some call \<Rightarrow> snd call | None \<Rightarrow> r) S"
    by (simp add: api_put_def none)
  finally show ?case .
qed

lemma update_remote_loop_unchanged:
  "\<forall>item \<in> set defs. map_of (definitions remote) (fst item) \<noteq> None \<and> \<not> marked_changed remote item \<Longrightarrow>
     update_remote_loop defs remote rdj ids c ps = (Inr c, ps)"
proof (induction defs)
  case Nil
  then show ?case by simp
next
  case (Cons item defs)
  obtain n l where item: "item = (n, l)" by (cases item)
  from Cons.prems obtain r where "map_of (definitions remote) n = Some r" "\<not> tier_differs n l r"
    by (auto simp: item marked_changed_def)
  then show ?case using Cons by (simp add: item update_remote_loop_step)
qed

lemma list_all2_right_ex:
  "list_all2 P xs ys \<Longrightarrow> y \<in> set ys \<Longrightarrow> \<exists>x \<in> set xs. P x y"
  by (induction rule: list_all2_induct) auto

lemma list_all2_left_ex:
  "list_all2 P xs ys \<Longrightarrow> x \<in> set xs \<Longrightarrow> \<exists>y \<in> set ys. P x y"
  by (induction rule: list_all2_induct) auto

lemma list_all2_distinct_left:
  assumes "list_all2 P xs ys" "distinct ys"
    and "\<And>x y x' y'. P x y \<Longrightarrow> P x' y' \<Longrightarrow> f x = f x' \<Longrightarrow> y = y'"
  shows "distinct (map f xs)"
  using assms(1,2)
proof (induction rule: list_all2_induct)
  case Nil
  then show ?case by simp
next
  case (Cons x xs y ys)
  have "f x \<notin> f ` set xs"
  proof
    assume "f x \<in> f ` set xs"
    then obtain x' where x': "x' \<in> set xs" "f x = f x'" by auto
    from list_all2_left_ex [OF Cons.hyps(2) x'(1)] obtain y' where "y' \<in> set ys" "P x' y'" by auto
    with assms(3) [OF Cons.hyps(1) this(2) x'(2)] Cons.prems show False by auto
  qed
  then show ?case using Cons by simp
qed

lemma same_id:
  assumes "distinct (map (\<lambda>r. map_of r ''id'') S)" "r \<in> set S" "r' \<in> set S"
    and "map_of r ''id'' = map_of r' ''id''"
  shows "r = r'"
proof -
  have "inj_on (\<lambda>r. map_of r ''id'') (set S)" using assms(1) by (simp add: distinct_map)
  from inj_onD [OF this, of r r'] assms(2-4) show ?thesis by simp
qed

lemma writer_call_record:
  assumes idx: "index_by_id S [] = Inr rdj" "index_ids rdj [] = Inr ids"
    and dist: "distinct (map (\<lambda>r. map_of r ''id'') S)"
    and fr: "from_remote S = Inr remote"
    and wc: "writer_call remote rdj ids call (n, l)"
  shows "\<exists>r q. find (\<lambda>r. quality_name r = Inr (JStr n)) (rev S) = Some r
           \<and> map_of r ''id'' = Some (fst call)
           \<and> from_remote_item r = Inr (JStr n, q)
           \<and> map_of (definitions remote) n = Some q
           \<and> snd call = dict_merge r (changed_attrs n l q)"
proof -
  from wc obtain q i record_json where q: "map_of (definitions remote) n = Some q"
    and i: "map_of ids (JStr n) = Some i" and rj: "map_of rdj i = Some record_json"
    and call: "call = (i, dict_merge record_json (changed_attrs n l q))"
    by (auto simp: writer_call_def split: option.splits)
  from from_remote_Inr [OF fr] have
    wf: "\<forall>r \<in> set S. \<exists>s q. from_remote_item r = Inr (JStr s, q)" by blast
  then have names: "\<forall>r \<in> set S. \<exists>k. quality_name r = Inr k"
    using from_remote_item_name by blast
  from q remote_lookup [OF fr, of n] obtain r where
    r: "find (\<lambda>r. quality_name r = Inr (JStr n)) (rev S) = Some r"
    and qr: "q = snd (projr (from_remote_item r))" by auto
  from find_in_set [OF r] have rS: "r \<in> set S" and rn: "quality_name r = Inr (JStr n)" by auto
  from i ids_lookup [OF idx dist names, of "JStr n"] r have ir: "i = the (map_of r ''id'')" by simp
  from index_by_id_wf [OF idx(1)] rS obtain j where j: "map_of r ''id'' = Some j" by blast
  with ir have ri: "map_of r ''id'' = Some i" by simp
  from indexes_agree [OF idx i] rj have "record_json \<in> set S" "map_of record_json ''id'' = Some i"
    by auto
  then have rec: "record_json = r" using same_id [OF dist _ rS, of record_json] ri by simp
  from wf rS obtain s q' where it: "from_remote_item r = Inr (JStr s, q')" by blast
  with rn from_remote_item_name [OF it] qr have "from_remote_item r = Inr (JStr n, q)" by simp
  then show ?thesis using r ri q call rec by auto
qed

lemma list_all2_distinct_left_on:
  assumes "list_all2 P xs ys" "distinct ys" "set ys \<subseteq> A"
    and "\<And>x y x' y'. y \<in> A \<Longrightarrow> y' \<in> A \<Longrightarrow> P x y \<Longrightarrow> P x' y' \<Longrightarrow> f x = f x' \<Longrightarrow> y = y'"
  shows "distinct (map f xs)"
  using assms(1,2,3)
proof (induction rule: list_all2_induct)
  case Nil
  then show ?case by simp
next
  case (Cons x xs y ys)
  have "f x \<notin> f ` set xs"
  proof
    assume "f x \<in> f ` set xs"
    then obtain x' where x': "x' \<in> set xs" "f x = f x'" by auto
    from list_all2_left_ex [OF Cons.hyps(2) x'(1)] obtain y' where y': "y' \<in> set ys" "P x' y'" by auto
    have "y = y'" using assms(4) [of y y' x x'] Cons.hyps(1) Cons.prems(2) y' x'(2) by auto
    with Cons.prems(1) y'(1) show False by simp
  qed
  then show ?case using Cons by simp
qed

lemma find_map_comp: "find P (map f xs) = map_option f (find (\<lambda>x. P (f x)) xs)"
  by (induction xs) auto

lemma find_distinct_key:
  "distinct (map f xs) \<Longrightarrow> x \<in> set xs \<Longrightarrow> find (\<lambda>y. k = f y) xs = Some x' \<Longrightarrow> k = f x \<Longrightarrow> x' = x"
  by (induction xs) (auto split: if_splits simp: rev_image_eqI)

lemma first_run_puts:
  assumes idx: "index_by_id S [] = Inr rdj" "index_ids rdj [] = Inr ids"
    and dist: "distinct (map (\<lambda>r. map_of r ''id'') S)"
    and fr: "from_remote S = Inr remote"
    and names: "distinct (map fst defs)"
    and la: "list_all2 (writer_call remote rdj ids) puts (filter (marked_changed remote) defs)"
  shows "distinct (map fst puts) \<and> (\<forall>call \<in> set puts. map_of (snd call) ''id'' = Some (fst call))"
proof
  have d: "distinct (filter (marked_changed remote) defs)"
    using names by (simp add: distinct_map)
  show "distinct (map fst puts)"
  proof (rule list_all2_distinct_left_on [OF la d, of "set defs"])
    show "set (filter (marked_changed remote) defs) \<subseteq> set defs" by auto
  next
    fix x y x' y'
    assume y: "y \<in> set defs" "y' \<in> set defs"
      and w: "writer_call remote rdj ids x y" "writer_call remote rdj ids x' y'"
      and e: "fst x = fst x'"
    obtain n l n' l' where yy: "y = (n, l)" "y' = (n', l')" by (cases y, cases y')
    from writer_call_record [OF idx dist fr w(1) [unfolded yy]] obtain r where
      r: "find (\<lambda>r. quality_name r = Inr (JStr n)) (rev S) = Some r" "map_of r ''id'' = Some (fst x)"
      by blast
    from writer_call_record [OF idx dist fr w(2) [unfolded yy]] obtain r' where
      r': "find (\<lambda>r. quality_name r = Inr (JStr n')) (rev S) = Some r'" "map_of r' ''id'' = Some (fst x')"
      by blast
    from find_in_set [OF r(1)] find_in_set [OF r'(1)] have
      in_S: "r \<in> set S" "r' \<in> set S" and nm: "quality_name r = Inr (JStr n)" "quality_name r' = Inr (JStr n')"
      by auto
    have "r = r'" using same_id [OF dist in_S] r(2) r'(2) e by simp
    with nm have "n = n'" by simp
    with y yy names have "l = l'" by (metis eq_key_imp_eq_value)
    with \<open>n = n'\<close> yy show "y = y'" by simp
  qed
  show "\<forall>call \<in> set puts. map_of (snd call) ''id'' = Some (fst call)"
  proof
    fix call assume "call \<in> set puts"
    from list_all2_left_ex [OF la this] obtain item where "writer_call remote rdj ids call item" by auto
    moreover obtain n l where "item = (n, l)" by (cases item)
    ultimately obtain r q where "map_of r ''id'' = Some (fst call)"
      "snd call = dict_merge r (changed_attrs n l q)"
      using writer_call_record [OF idx dist fr, of call n l] by blast
    then show "map_of (snd call) ''id'' = Some (fst call)"
      by (simp add: merge_changed_other)
  qed
qed

text \<open>
  Claim C2. Take a local configuration whose quality names are distinct (it is a dictionary)
  and whose definitions are objects the constructor has returned, a server whose records
  have distinct IDs, the remote object read from that server, and a run of \<open>update_remote\<close>
  that returns. Let the server take the writes of that run. Then the remote state can be read
  again, and a second run against it returns \<^verbatim>\<open>False\<close> and makes no call of \<^verbatim>\<open>api_put\<close>.
\<close>

theorem update_remote_idempotent:
  assumes names: "distinct (map fst (definitions self))"
    and built: "\<forall>item \<in> set (definitions self). constructed (snd item)"
    and dist: "distinct (map (\<lambda>record_json. map_of record_json ''id'') server)"
    and fr: "from_remote server = Inr remote"
    and run: "update_remote server self remote = (Inr changed, puts)"
  shows "\<exists>remote'. from_remote (fold api_put puts server) = Inr remote'
           \<and> update_remote (fold api_put puts server) self remote' = (Inr False, [])"
proof -
  let ?defs = "definitions self"
  let ?last = "\<lambda>n. find (\<lambda>r. quality_name r = Inr (JStr n)) (rev server)"
  let ?U = "\<lambda>r. case find (\<lambda>call. map_of r ''id'' = Some (fst call)) puts of
                  Some call \<Rightarrow> snd call | None \<Rightarrow> r"
  from run obtain rdj ids where idx: "index_by_id server [] = Inr rdj" "index_ids rdj [] = Inr ids"
    and loop: "update_remote_loop ?defs remote rdj ids False [] = (Inr changed, puts)"
    by (cases rule: update_remote_cases [of server self remote]) auto
  from update_remote_loop_success [OF loop] have
    dom: "\<forall>item \<in> set ?defs. map_of (definitions remote) (fst item) \<noteq> None"
    and la: "list_all2 (writer_call remote rdj ids) puts (filter (marked_changed remote) ?defs)"
    by auto
  from from_remote_Inr [OF fr] have
    wf: "\<forall>r \<in> set server. \<exists>s q. from_remote_item r = Inr (JStr s, q)" by blast
  from index_by_id_wf [OF idx(1)] have
    wfid: "\<forall>r \<in> set server. \<exists>i. map_of r ''id'' = Some i \<and> hashable i" .
  from first_run_puts [OF idx dist fr names la] have
    dp: "distinct (map fst puts)"
    and bid: "\<forall>call \<in> set puts. map_of (snd call) ''id'' = Some (fst call)" by auto
  have server': "fold api_put puts server = map ?U server"
    by (rule fold_api_put_map [OF bid dp])

  have U_cases: "?U r = r
      \<or> (\<exists>n l q. (n, l) \<in> set ?defs \<and> marked_changed remote (n, l) \<and> ?last n = Some r
            \<and> from_remote_item r = Inr (JStr n, q) \<and> ?U r = dict_merge r (changed_attrs n l q))"
    if rS: "r \<in> set server" for r
  proof (cases "find (\<lambda>call. map_of r ''id'' = Some (fst call)) puts")
    case None
    then show ?thesis by simp
  next
    case (Some call)
    from find_in_set [OF Some] have c: "call \<in> set puts" "map_of r ''id'' = Some (fst call)" by auto
    from list_all2_left_ex [OF la c(1)] obtain item where
      item: "item \<in> set ?defs" "marked_changed remote item" "writer_call remote rdj ids call item"
      by auto
    obtain n l where nl: "item = (n, l)" by (cases item)
    from writer_call_record [OF idx dist fr item(3) [unfolded nl]] obtain r0 q where
      r0: "?last n = Some r0" "map_of r0 ''id'' = Some (fst call)"
        "from_remote_item r0 = Inr (JStr n, q)" "snd call = dict_merge r0 (changed_attrs n l q)"
      by blast
    from find_in_set [OF r0(1)] have "r0 \<in> set server" by simp
    then have "r0 = r" using same_id [OF dist _ rS, of r0] r0(2) c(2) by simp
    then show ?thesis using item(1,2) r0 Some nl by auto
  qed

  have U_id: "map_of (?U r) ''id'' = map_of r ''id''" if "r \<in> set server" for r
    using U_cases [OF that] by (auto simp: merge_changed_other)

  have U_item: "\<exists>s q'. from_remote_item (?U r) = Inr (JStr s, q') \<and> quality_name r = Inr (JStr s)"
    if rS: "r \<in> set server" for r
    using U_cases [OF rS]
  proof
    assume "?U r = r"
    moreover from wf rS obtain s q where "from_remote_item r = Inr (JStr s, q)" by blast
    ultimately show ?thesis using from_remote_item_name by fastforce
  next
    assume "\<exists>n l q. (n, l) \<in> set ?defs \<and> marked_changed remote (n, l) \<and> ?last n = Some r
            \<and> from_remote_item r = Inr (JStr n, q) \<and> ?U r = dict_merge r (changed_attrs n l q)"
    then obtain n l q where nl: "(n, l) \<in> set ?defs" and it: "from_remote_item r = Inr (JStr n, q)"
      and u: "?U r = dict_merge r (changed_attrs n l q)" by blast
    from built nl have "constructed l" by auto
    from from_remote_item_merged [OF it this] u from_remote_item_name [OF it]
    show ?thesis by auto
  qed

  have U_name: "quality_name (?U r) = quality_name r" if rS: "r \<in> set server" for r
    using U_item [OF rS] from_remote_item_name by fastforce

  have U_last: "\<exists>r q'. ?last n = Some r \<and> from_remote_item (?U r) = Inr (JStr n, q')
      \<and> \<not> tier_differs n l q'"
    if nl: "(n, l) \<in> set ?defs" for n l
  proof -
    from dom nl obtain q where q: "map_of (definitions remote) n = Some q" by fastforce
    from q remote_lookup [OF fr, of n] obtain r where r: "?last n = Some r"
      and qr: "q = snd (projr (from_remote_item r))" by auto
    from find_in_set [OF r] have rS: "r \<in> set server" and rn: "quality_name r = Inr (JStr n)"
      by auto
    from wf rS obtain s q0 where "from_remote_item r = Inr (JStr s, q0)" by blast
    with rn from_remote_item_name [OF this] qr have it: "from_remote_item r = Inr (JStr n, q)"
      by simp
    show ?thesis
    proof (cases "marked_changed remote (n, l)")
      case True
      with nl have "(n, l) \<in> set (filter (marked_changed remote) ?defs)" by simp
      from list_all2_right_ex [OF la this] obtain call where
        call: "call \<in> set puts" "writer_call remote rdj ids call (n, l)" by auto
      from writer_call_record [OF idx dist fr call(2)] r q obtain q1 where
        c: "map_of r ''id'' = Some (fst call)" "from_remote_item r = Inr (JStr n, q1)"
          "snd call = dict_merge r (changed_attrs n l q1)" by auto
      have "\<exists>x \<in> set puts. map_of r ''id'' = Some (fst x)" using call(1) c(1) by blast
      then have "find (\<lambda>call. map_of r ''id'' = Some (fst call)) puts \<noteq> None"
        by (auto simp: find_None_iff)
      then obtain call' where f: "find (\<lambda>call. map_of r ''id'' = Some (fst call)) puts = Some call'"
        by blast
      from find_in_set [OF f] have "call' \<in> set puts" "fst call' = fst call" using c(1) by auto
      with dp call(1) have "call' = call" by (metis distinct_map inj_onD)
      with f c(3) have "?U r = dict_merge r (changed_attrs n l q1)" by simp
      moreover from built nl have "constructed l" by auto
      ultimately show ?thesis using from_remote_item_merged [OF c(2)] r by auto
    next
      case False
      then have nd: "\<not> tier_differs n l q" by (simp add: marked_changed_def q)
      from U_cases [OF rS] have "?U r = r"
      proof
        assume "?U r = r" then show ?thesis .
      next
        assume "\<exists>n' l' q'. (n', l') \<in> set ?defs \<and> marked_changed remote (n', l') \<and> ?last n' = Some r
            \<and> from_remote_item r = Inr (JStr n', q') \<and> ?U r = dict_merge r (changed_attrs n' l' q')"
        then obtain n' l' q' where m: "(n', l') \<in> set ?defs" "marked_changed remote (n', l')"
          "from_remote_item r = Inr (JStr n', q')" by blast
        from m(3) it have "n' = n" by simp
        with m(1) nl names have "l' = l" by (metis eq_key_imp_eq_value)
        with m(2) \<open>n' = n\<close> False show ?thesis by simp
      qed
      then show ?thesis using r it nd by auto
    qed
  qed

  have "\<forall>r \<in> set (fold api_put puts server). \<exists>s q. from_remote_item r = Inr (JStr s, q)"
  proof
    fix r' assume "r' \<in> set (fold api_put puts server)"
    then obtain r where r: "r \<in> set server" "r' = ?U r" by (auto simp: server')
    from U_item [OF r(1)] obtain s q' where "from_remote_item (?U r) = Inr (JStr s, q')" by blast
    then show "\<exists>s q. from_remote_item r' = Inr (JStr s, q)" unfolding r(2) by blast
  qed
  from from_remote_total [OF this] obtain remote' where
    fr': "from_remote (fold api_put puts server) = Inr remote'" by blast
  have unchanged: "map_of (definitions remote') (fst item) \<noteq> None \<and> \<not> marked_changed remote' item"
    if item: "item \<in> set ?defs" for item
  proof -
    obtain n l where nl: "item = (n, l)" by (cases item)
    from U_last [of n l] item nl obtain r q' where r: "?last n = Some r"
      and it: "from_remote_item (?U r) = Inr (JStr n, q')" and nd: "\<not> tier_differs n l q'" by auto
    have "find (\<lambda>r. quality_name r = Inr (JStr n)) (rev (map ?U server))
        = map_option ?U (find (\<lambda>r. quality_name (?U r) = Inr (JStr n)) (rev server))"
      by (simp only: rev_map find_map_comp)
    also have "find (\<lambda>r. quality_name (?U r) = Inr (JStr n)) (rev server) = ?last n"
      by (rule find_cong [OF refl]) (simp add: U_name)
    finally have "find (\<lambda>r. quality_name r = Inr (JStr n)) (rev (fold api_put puts server))
        = Some (?U r)" by (simp add: r server')
    with remote_lookup [OF fr', of n] it have "map_of (definitions remote') n = Some q'" by simp
    with nd show ?thesis by (simp add: nl marked_changed_def)
  qed

  have "\<forall>r \<in> set (fold api_put puts server). \<exists>i. map_of r ''id'' = Some i \<and> hashable i"
  proof
    fix r' assume "r' \<in> set (fold api_put puts server)"
    then obtain r where r: "r \<in> set server" "r' = ?U r" by (auto simp: server')
    from wfid r(1) obtain i where "map_of r ''id'' = Some i" "hashable i" by blast
    with U_id [OF r(1)] show "\<exists>i. map_of r' ''id'' = Some i \<and> hashable i"
      unfolding r(2) by simp
  qed
  from index_by_id_total [OF this] obtain rdj' where
    idx1': "index_by_id (fold api_put puts server) [] = Inr rdj'" by blast
  have "\<forall>x \<in> set rdj'. \<exists>k. quality_name (snd x) = Inr k \<and> hashable k"
  proof
    fix x assume "x \<in> set rdj'"
    with index_by_id_Inr [OF idx1'] have "snd x \<in> set (fold api_put puts server)" by auto
    then obtain r where r: "r \<in> set server" "snd x = ?U r" by (auto simp: server')
    from U_item [OF r(1)] obtain s q' where "from_remote_item (?U r) = Inr (JStr s, q')" by blast
    then have "from_remote_item (snd x) = Inr (JStr s, q')" unfolding r(2) .
    from from_remote_item_name [OF this] show "\<exists>k. quality_name (snd x) = Inr k \<and> hashable k"
      by simp
  qed
  from index_ids_total [OF this] obtain ids' where idx2': "index_ids rdj' [] = Inr ids'" by blast
  have "update_remote (fold api_put puts server) self remote'
      = update_remote_loop ?defs remote' rdj' ids' False []"
    by (rule update_remote_indexed [OF idx1' idx2'])
  also have "\<dots> = (Inr False, [])"
    by (rule update_remote_loop_unchanged) (use unchanged in blast)
  finally show ?thesis using fr' by blast
qed

theorem update_remote_idempotent_witness:
  "from_remote
     (fold api_put [(JNum 1, AList.update ''minSize'' (JNum 2) example_record_X)] example_server)
     = Inr \<lparr>trash_id = None, definitions =
         [(''X'', \<lparr>title = None, min_f = 2, preferred = 5, max_f = Some 100\<rparr>),
          (''Y'', \<lparr>title = Some ''Why'', min_f = 0, preferred = 95, max_f = None\<rparr>),
          (''Z'', \<lparr>title = None, min_f = 10, preferred = 20, max_f = None\<rparr>)]\<rparr>
   \<and> update_remote
       (fold api_put [(JNum 1, AList.update ''minSize'' (JNum 2) example_record_X)] example_server)
       example_local
       \<lparr>trash_id = None, definitions =
         [(''X'', \<lparr>title = None, min_f = 2, preferred = 5, max_f = Some 100\<rparr>),
          (''Y'', \<lparr>title = Some ''Why'', min_f = 0, preferred = 95, max_f = None\<rparr>),
          (''Z'', \<lparr>title = None, min_f = 10, preferred = 20, max_f = None\<rparr>)]\<rparr>
     = (Inr False, [])"
proof -
  have names: "distinct (map fst (definitions example_local))"
    by (simp add: example_defs)
  have built: "\<forall>item \<in> set (definitions example_local). constructed (snd item)"
    by (simp add: example_defs constructed_iff float_sub_less_1_iff)
  have dist: "distinct (map (\<lambda>record_json. map_of record_json ''id'') example_server)"
    by (simp add: example_defs)
  have after: "from_remote
     (fold api_put [(JNum 1, AList.update ''minSize'' (JNum 2) example_record_X)] example_server)
     = Inr \<lparr>trash_id = None, definitions =
         [(''X'', \<lparr>title = None, min_f = 2, preferred = 5, max_f = Some 100\<rparr>),
          (''Y'', \<lparr>title = Some ''Why'', min_f = 0, preferred = 95, max_f = None\<rparr>),
          (''Z'', \<lparr>title = None, min_f = 10, preferred = 20, max_f = None\<rparr>)]\<rparr>"
    by (simp add: example_defs api_put_def from_remote_def from_remote_item_def quality_name_def
        and_then_def init_defs)
  from update_remote_idempotent
    [OF names built dist example_from_remote example_update_remote]
  obtain remote' where
    "from_remote
       (fold api_put [(JNum 1, AList.update ''minSize'' (JNum 2) example_record_X)] example_server)
       = Inr remote'"
    "update_remote
       (fold api_put [(JNum 1, AList.update ''minSize'' (JNum 2) example_record_X)] example_server)
       example_local remote' = (Inr False, [])"
    by blast
  with after show ?thesis by simp
qed

end
